theory Spec2Isabelle
  imports Main "HOL-Library.List_Lexorder" "HOL-Library.Char_ord"
begin

section \<open>Host values: strings, cell values, sparse arrays\<close>

text \<open>
  The application is a Svelte component (\<^verbatim>\<open>App.svelte\<close>) and a helper module
  (\<^verbatim>\<open>icalHelper.ts\<close>). Strings are lists of code units; the model keeps the code units
  below 256, which covers the labels of the program and the French month names.

  Builtins whose result the ECMAScript standard leaves to the engine or to locale data
  are parameters of the model, collected in the record \<open>platform\<close>: the case mapping
  \<^verbatim>\<open>String.prototype.toUpperCase\<close>, the collation \<^verbatim>\<open>String.prototype.localeCompare\<close>, and the
  date-string parser behind \<^verbatim>\<open>new Date(string)\<close> and \<^verbatim>\<open>Date.parse\<close>.
\<close>

definition isWhiteSpace :: "char \<Rightarrow> bool" where
  \<comment> \<open>the white space and line terminators that \<^verbatim>\<open>trim()\<close> removes, below code unit 256\<close>
  "isWhiteSpace c = ((of_char c :: nat) \<in> set [9, 10, 11, 12, 13, 32, 160])"

definition trim :: "string \<Rightarrow> string" where
  "trim s = rev (dropWhile isWhiteSpace (rev (dropWhile isWhiteSpace s)))"

definition isDigit :: "char \<Rightarrow> bool" where
  \<comment> \<open>the regular expression class \<^verbatim>\<open>\d\<close>\<close>
  "isDigit c = (48 \<le> (of_char c :: nat) \<and> (of_char c :: nat) \<le> 57)"

definition test_digit :: "string \<Rightarrow> bool" where
  \<comment> \<open>\<^verbatim>\<open>/\d/.test(s)\<close>\<close>
  "test_digit s = list_ex isDigit s"

fun show_nat :: "nat \<Rightarrow> string" where
  "show_nat n =
     (if n < 10 then [char_of (48 + n)]
      else show_nat (n div 10) @ [char_of (48 + n mod 10)])"

declare show_nat.simps [simp del]

definition show_int :: "int \<Rightarrow> string" where
  "show_int i = (if i < 0 then CHR ''-'' # show_nat (nat (- i)) else show_nat (nat i))"

text \<open>
  A cell value as the workbook reader hands it over. \<open>VNumber\<close> stands for the
  integer-valued numbers, \<open>VObject\<close> for every object value (a date, rich text, a
  formula), carried with the text its \<^verbatim>\<open>toString()\<close> returns. An object is always truthy.
\<close>

datatype js_value = VString string | VNumber int | VBoolean bool | VObject string

fun truthy :: "js_value \<Rightarrow> bool" where
  "truthy (VString s) = (s \<noteq> [])"
| "truthy (VNumber n) = (n \<noteq> 0)"
| "truthy (VBoolean b) = b"
| "truthy (VObject d) = True"

fun toString :: "js_value \<Rightarrow> string" where
  "toString (VString s) = s"
| "toString (VNumber n) = show_int n"
| "toString (VBoolean b) = (if b then ''true'' else ''false'')"
| "toString (VObject d) = d"

text \<open>
  A sparse array is a list of options: \<open>None\<close> is an empty slot. Reading a slot that is
  empty or beyond the length gives \<^verbatim>\<open>undefined\<close>, again \<open>None\<close>. \<^verbatim>\<open>map\<close> and \<^verbatim>\<open>some\<close> skip empty
  slots, \<^verbatim>\<open>find\<close> visits them.
\<close>

definition at_index :: "'a option list \<Rightarrow> nat \<Rightarrow> 'a option" where
  "at_index xs i = (if i < length xs then xs ! i else None)"

section \<open>The worksheet as the reader exposes it\<close>

text \<open>
  The workbook reader (the ExcelJS library) is outside the program; its rows, cells and
  columns are modelled by what the program reads from them.
  A cell has a value (\<open>None\<close> for a cell of the null type) and the two attributes of its
  fill that the program reads, \<^verbatim>\<open>fill?.fgColor?.argb\<close> and \<^verbatim>\<open>fill?.fgColor?.theme\<close>.
  A row is the list of its cells, column 1 first; a worksheet is the list of its rows,
  row 1 first, and its column objects (numbered from 1): their number, or \<open>None\<close> when
  \<^verbatim>\<open>worksheet.columns\<close> is \<^verbatim>\<open>null\<close>, as it is on a sheet for which no column is defined.
\<close>

record cell =
  cvalue :: "js_value option"
  fill_argb :: "string option"
  fill_theme :: "int option"

type_synonym row = "cell list"

record worksheet =
  ws_rows :: "row list"
  ws_columns :: "nat option"

definition empty_cell :: cell where
  "empty_cell = \<lparr>cvalue = None, fill_argb = None, fill_theme = None\<rparr>"

definition getCell :: "row \<Rightarrow> nat \<Rightarrow> cell" where
  \<comment> \<open>\<^verbatim>\<open>row.getCell(c)\<close>, columns numbered from 1; a cell never written is empty\<close>
  "getCell r c = (if 1 \<le> c \<and> c \<le> length r then r ! (c - 1) else empty_cell)"

definition getRow :: "worksheet \<Rightarrow> nat \<Rightarrow> row" where
  \<comment> \<open>\<^verbatim>\<open>worksheet.getRow(n)\<close>, rows numbered from 1\<close>
  "getRow ws n = (if 1 \<le> n \<and> n \<le> length (ws_rows ws) then ws_rows ws ! (n - 1) else [])"

fun trim_holes :: "'a option list \<Rightarrow> 'a option list" where
  "trim_holes [] = []"
| "trim_holes (x # xs) =
     (let ys = trim_holes xs in if ys = [] \<and> x = None then [] else x # ys)"

definition row_values :: "row \<Rightarrow> js_value option list" where
  \<comment> \<open>\<^verbatim>\<open>row.values\<close>: a sparse array indexed by column number, slot 0 never written, only
      the cells with a value written, so its length is the last such column plus one\<close>
  "row_values r = (let vs = trim_holes (map cvalue r) in if vs = [] then [] else None # vs)"

definition hasValues :: "row \<Rightarrow> bool" where
  "hasValues r = list_ex (\<lambda>c. cvalue c \<noteq> None) r"

definition eachRow :: "worksheet \<Rightarrow> row list" where
  \<comment> \<open>\<^verbatim>\<open>worksheet.eachRow\<close> without \<^verbatim>\<open>includeEmpty\<close>: the rows that have a value, in order\<close>
  "eachRow ws = filter hasValues (ws_rows ws)"

definition fgColor_argb :: "cell \<Rightarrow> string option" where
  \<comment> \<open>\<^verbatim>\<open>cell.fill?.fgColor?.argb || null\<close>\<close>
  "fgColor_argb c = (case fill_argb c of None \<Rightarrow> None | Some s \<Rightarrow> if s = [] then None else Some s)"

definition fgColor_theme :: "cell \<Rightarrow> int option" where
  \<comment> \<open>\<^verbatim>\<open>cell.fill?.fgColor?.theme || null\<close>\<close>
  "fgColor_theme c = (case fill_theme c of None \<Rightarrow> None | Some n \<Rightarrow> if n = 0 then None else Some n)"

section \<open>Shift classification\<close>

record cellData =
  color :: "string option"
  color_theme :: "int option"

definition determineServiceType :: "cellData \<Rightarrow> string" where
  "determineServiceType cd =
     (if color cd = Some ''FF00B0F0'' then ''12H Jour''
      else if color_theme cd = Some 9 then ''12H Nuit''
      else ''24H'')"

section \<open>Row extraction\<close>

record extraCell = cellData +
  val :: string
  serviceType :: string

record EventData =
  date :: string
  equipe :: string
  extraData :: "extraCell option list"

definition coerce :: "js_value \<Rightarrow> string" where
  \<comment> \<open>\<^verbatim>\<open>value ? value.toString() : ""\<close>\<close>
  "coerce v = (if truthy v then toString v else [])"

definition rowValues :: "row \<Rightarrow> string option list" where
  \<comment> \<open>\<^verbatim>\<open>row.values.slice(1).map(...)\<close>: the callback is not run on an empty slot\<close>
  "rowValues r = map (map_option coerce) (drop 1 (row_values r))"

definition extraCellOf :: "row \<Rightarrow> nat \<Rightarrow> string \<Rightarrow> extraCell" where
  \<comment> \<open>the callback that builds one entry of \<^verbatim>\<open>extraData\<close>\<close>
  "extraCellOf r index v =
     (let c = getCell r (index + 4);
          col = fgColor_argb c;
          theme = fgColor_theme c
      in \<lparr>color = col, color_theme = theme, val = v,
          serviceType = determineServiceType \<lparr>color = col, color_theme = theme\<rparr>\<rparr>)"

definition parseRow :: "row \<Rightarrow> EventData option" where
  \<comment> \<open>the body of the \<^verbatim>\<open>eachRow\<close> callback of \<^verbatim>\<open>parseSheet\<close>; \<open>Some\<close> is the pushed event\<close>
  "parseRow r =
     (let rv = rowValues r;
          dateV = at_index rv 1;
          equipeV = at_index rv 2;
          extras = map (\<lambda>(index, v). map_option (extraCellOf r index) v)
                     (enumerate 0 (drop 3 rv))
      in case (dateV, equipeV) of
           (Some d, Some e) \<Rightarrow>
             if d \<noteq> [] \<and> e \<noteq> [] then Some \<lparr>date = d, equipe = e, extraData = extras\<rparr>
             else None
         | _ \<Rightarrow> None)"

definition parseSheet :: "worksheet \<Rightarrow> EventData list" where
  "parseSheet ws =
     fold (\<lambda>r extractedEvents.
             case parseRow r of None \<Rightarrow> extractedEvents
             | Some ev \<Rightarrow> extractedEvents @ [ev])
       (eachRow ws) []"

section \<open>Dates of the host\<close>

text \<open>
  A valid \<^verbatim>\<open>Date\<close> object is read through its local-time fields (months counted from 0,
  as \<^verbatim>\<open>getMonth()\<close> does); the model is the local civil time line, without time zone
  transitions. An invalid \<^verbatim>\<open>Date\<close> (time value \<^verbatim>\<open>NaN\<close>) is \<open>None\<close>.
\<close>

record datetime =
  year :: int
  month :: nat
  day :: nat
  hours :: nat
  minutes :: nat
  seconds :: nat
  millis :: nat

record platform =
  toUpperCase :: "string \<Rightarrow> string"
  localeCompare :: "string \<Rightarrow> string \<Rightarrow> int"
  Date_parse :: "string \<Rightarrow> datetime option"

definition is_leap :: "int \<Rightarrow> bool" where
  "is_leap y = (if y mod 400 = 0 then True else if y mod 100 = 0 then False else y mod 4 = 0)"

definition days_in_month :: "int \<Rightarrow> nat \<Rightarrow> nat" where
  "days_in_month y m =
     (if m = 1 then (if is_leap y then 29 else 28)
      else if m = 3 \<or> m = 5 \<or> m = 8 \<or> m = 10 then 30
      else 31)"

function normalize_ymd :: "int \<Rightarrow> nat \<Rightarrow> nat \<Rightarrow> int \<times> nat \<times> nat" where
  "normalize_ymd y m d =
     (if 12 \<le> m then normalize_ymd (y + 1) (m - 12) d
      else if d = 0 then
        (if m = 0 then (y - 1, 11, 31) else (y, m - 1, days_in_month y (m - 1)))
      else if days_in_month y m < d then
        (if m = 11 then normalize_ymd (y + 1) 0 (d - days_in_month y m)
         else normalize_ymd y (m + 1) (d - days_in_month y m))
      else (y, m, d))"
  by pat_completeness auto
termination
  by (relation "measures [\<lambda>(y, m, d). d, \<lambda>(y, m, d). m]")
     (auto simp: days_in_month_def)

declare normalize_ymd.simps [simp del]

definition newDate :: "int \<Rightarrow> nat \<Rightarrow> nat \<Rightarrow> datetime" where
  \<comment> \<open>\<^verbatim>\<open>new Date(year, month, day)\<close>: local midnight; a year from 0 to 99 means 1900 + year;
      a day beyond the month's length rolls over\<close>
  "newDate y m d =
     (case normalize_ymd (if 0 \<le> y \<and> y \<le> 99 then 1900 + y else y) m d of
        (y', m', d') \<Rightarrow>
          \<lparr>year = y', month = m', day = d', hours = 0, minutes = 0, seconds = 0, millis = 0\<rparr>)"

definition setDate :: "datetime \<Rightarrow> nat \<Rightarrow> datetime" where
  \<comment> \<open>\<^verbatim>\<open>setDate(n)\<close>: day \<open>n\<close> of the current month, rolling over; the time of day is kept\<close>
  "setDate t n =
     (case normalize_ymd (year t) (month t) n of
        (y', m', d') \<Rightarrow> t\<lparr>year := y', month := m', day := d'\<rparr>)"

definition setHours :: "datetime \<Rightarrow> nat \<Rightarrow> nat \<Rightarrow> datetime" where
  \<comment> \<open>\<^verbatim>\<open>setHours(h, m)\<close> for \<open>h < 24\<close> and \<open>m < 60\<close>, as at every call site: seconds and
      milliseconds are kept\<close>
  "setHours t h m = t\<lparr>hours := h, minutes := m\<rparr>"

section \<open>The schedule window\<close>

datatype error =
  InvalidDateError
  | UnrecognizedDateFormatError
  | UnrecognizedServiceTypeError
  | RangeError
  | TypeError

text \<open>
  The three \<^verbatim>\<open>throw new Error(...)\<close> of \<^verbatim>\<open>getEventTimes\<close> are, in the order of the source,
  \<open>InvalidDateError\<close> ("Format de date invalide dans la chaine"), \<open>UnrecognizedDateFormatError\<close>
  ("Format de date non reconnu") and \<open>UnrecognizedServiceTypeError\<close> ("Type de service non
  reconnu"). \<open>RangeError\<close> is the exception that \<^verbatim>\<open>Intl.DateTimeFormat.prototype.formatToParts\<close>
  throws on an invalid date, \<open>TypeError\<close> the one raised by reading a property of \<^verbatim>\<open>null\<close>.
\<close>

datatype date_value = DString string | DDate "datetime option" | DOther

definition month_names_fr :: "string list" where
  "month_names_fr =
     [''janvier'', ''f'' @ [CHR 0xE9] @ ''vrier'', ''mars'', ''avril'', ''mai'', ''juin'',
      ''juillet'', ''ao'' @ [CHR 0xFB] @ ''t'', ''septembre'', ''octobre'', ''novembre'',
      ''d'' @ [CHR 0xE9] @ ''cembre'']"

definition formatToParts :: "datetime option \<Rightarrow> error + (string \<times> string) list" where
  \<comment> \<open>\<^verbatim>\<open>new Intl.DateTimeFormat("fr-FR", {day: "numeric", month: "long", year: "numeric"})\<close>:
      the parts as (type, value); the year is the year of the era\<close>
  "formatToParts d =
     (case d of
        None \<Rightarrow> Inl RangeError
      | Some t \<Rightarrow>
          Inr [(''day'', show_nat (day t)), (''literal'', '' ''),
               (''month'', if month t < 12 then month_names_fr ! month t else []),
               (''literal'', '' ''),
               (''year'', show_nat (nat (if 0 < year t then year t else 1 - year t)))])"

definition part_value :: "string \<Rightarrow> (string \<times> string) list \<Rightarrow> string option" where
  \<comment> \<open>\<^verbatim>\<open>parts.find((part) => part.type === ty)?.value\<close>\<close>
  "part_value ty parts = map_option snd (List.find (\<lambda>part. fst part = ty) parts)"

definition digits_to_nat :: "string \<Rightarrow> nat" where
  "digits_to_nat s = foldl (\<lambda>n c. 10 * n + (of_char c - 48)) 0 s"

definition Number :: "string option \<Rightarrow> nat option" where
  \<comment> \<open>\<^verbatim>\<open>Number(v)\<close> on \<^verbatim>\<open>undefined\<close> and on strings of decimal digits, the only forms the
      formatter produces; \<open>None\<close> is \<^verbatim>\<open>NaN\<close>\<close>
  "Number v =
     (case v of
        None \<Rightarrow> None
      | Some s \<Rightarrow>
          (let t = trim s in
           if t = [] then Some 0
           else if list_all isDigit t then Some (digits_to_nat t)
           else None))"

definition concat_undefined :: "string option \<Rightarrow> string \<Rightarrow> string" where
  \<comment> \<open>\<^verbatim>\<open>v + suffix\<close> where \<open>v\<close> is a string or \<^verbatim>\<open>undefined\<close>\<close>
  "concat_undefined v suffix = (case v of None \<Rightarrow> ''undefined'' | Some s \<Rightarrow> s) @ suffix"

definition resolveDate :: "platform \<Rightarrow> date_value \<Rightarrow> error + datetime option" where
  \<comment> \<open>lines 15 to 39 of \<^verbatim>\<open>getEventTimes\<close>: the value of \<^verbatim>\<open>date\<close>\<close>
  "resolveDate P dateValue =
     (case dateValue of
        DString s \<Rightarrow>
          (case formatToParts (Date_parse P s) of
             Inl e \<Rightarrow> Inl e
           | Inr parts \<Rightarrow>
               (let dayN = Number (part_value ''day'' parts);
                    monthN = map_option month
                      (Date_parse P (concat_undefined (part_value ''month'' parts) '' 1''));
                    yearN = Number (part_value ''year'' parts)
                in case (dayN, monthN, yearN) of
                     (Some d, Some m, Some y) \<Rightarrow> Inr (Some (newDate (int y) m d))
                   | _ \<Rightarrow> Inl InvalidDateError))
      | DDate d \<Rightarrow> Inr d
      | DOther \<Rightarrow> Inl UnrecognizedDateFormatError)"

definition eventWindow ::
  "datetime option \<Rightarrow> string \<Rightarrow> error + datetime option \<times> datetime option" where
  \<comment> \<open>lines 41 to 63 of \<^verbatim>\<open>getEventTimes\<close>: (start, end); every setter leaves an invalid
      date invalid\<close>
  "eventWindow dt svc =
     (if svc = ''12H Jour'' then
        Inr (map_option (\<lambda>t. setHours t 7 30) dt, map_option (\<lambda>t. setHours t 19 30) dt)
      else if svc = ''12H Nuit'' then
        Inr (map_option (\<lambda>t. setHours t 19 30) dt,
             map_option (\<lambda>t. setHours (setDate t (day t + 1)) 7 30) dt)
      else if svc = ''24H'' then
        Inr (map_option (\<lambda>t. setHours t 7 30) dt,
             map_option (\<lambda>t. setHours (setDate t (day t + 1)) 7 30) dt)
      else Inl UnrecognizedServiceTypeError)"

definition getEventTimes ::
  "platform \<Rightarrow> date_value \<Rightarrow> string \<Rightarrow> error + datetime option \<times> datetime option" where
  "getEventTimes P dateValue svc =
     (case resolveDate P dateValue of
        Inl e \<Rightarrow> Inl e
      | Inr dt \<Rightarrow> eventWindow dt svc)"

section \<open>Name index\<close>

definition set_add :: "string \<Rightarrow> string list \<Rightarrow> string list" where
  \<comment> \<open>\<^verbatim>\<open>Set.prototype.add\<close>: a set keeps the order of first insertion\<close>
  "set_add x xs = (if x \<in> set xs then xs else xs @ [x])"

definition isFirstRowEmpty :: "worksheet \<Rightarrow> bool" where
  \<comment> \<open>\<^verbatim>\<open>headerRow.values.every(cell => cell === null || cell === undefined)\<close>: \<^verbatim>\<open>every\<close>
      runs on the written slots only, and a written slot holds a value\<close>
  "isFirstRowEmpty ws =
     list_all (\<lambda>v. case v of None \<Rightarrow> True | Some x \<Rightarrow> False) (row_values (getRow ws 1))"

definition headerRow :: "worksheet \<Rightarrow> row" where
  "headerRow ws = (if isFirstRowEmpty ws then getRow ws 2 else getRow ws 1)"

definition header_kept :: "js_value option \<Rightarrow> bool" where
  \<comment> \<open>\<^verbatim>\<open>header && header !== 'DESIDERATA'\<close>\<close>
  "header_kept h = (case h of None \<Rightarrow> False | Some v \<Rightarrow> truthy v \<and> v \<noteq> VString ''DESIDERATA'')"

definition scanCell :: "cell \<Rightarrow> string list \<Rightarrow> string list" where
  \<comment> \<open>the callback of \<^verbatim>\<open>column.eachCell\<close>\<close>
  "scanCell c uniqueNames =
     (case cvalue c of
        None \<Rightarrow> uniqueNames
      | Some v \<Rightarrow>
          if truthy v then
            (let cellColor = fgColor_argb c;
                 cellTheme = fgColor_theme c;
                 cellValue = toString v;
                 svc = determineServiceType \<lparr>color = cellColor, color_theme = cellTheme\<rparr>
             in if svc = ''24H'' \<and> \<not> test_digit cellValue \<and> trim cellValue \<noteq> []
                then set_add cellValue uniqueNames else uniqueNames)
          else uniqueNames)"

definition columns :: "worksheet \<Rightarrow> nat list option" where
  \<comment> \<open>\<^verbatim>\<open>worksheet.columns\<close>, each column object given by its number; \<open>None\<close> is \<^verbatim>\<open>null\<close>\<close>
  "columns ws = map_option (\<lambda>n. [1..<n + 1]) (ws_columns ws)"

definition scanColumn :: "worksheet \<Rightarrow> row \<Rightarrow> nat \<times> nat \<Rightarrow> string list \<Rightarrow> string list" where
  \<comment> \<open>the callback of \<^verbatim>\<open>forEach((column, index) => ...)\<close>; \<^verbatim>\<open>column.eachCell\<close> visits the cell
      of the column in every row that has a value\<close>
  "scanColumn ws hdr ic uniqueNames =
     (case ic of
        (index, column) \<Rightarrow>
          if header_kept (cvalue (getCell hdr (index + 4)))
          then fold (\<lambda>r. scanCell (getCell r column)) (eachRow ws) uniqueNames
          else uniqueNames)"

fun insert_by :: "('a \<Rightarrow> 'a \<Rightarrow> int) \<Rightarrow> 'a \<Rightarrow> 'a list \<Rightarrow> 'a list" where
  "insert_by cmp x [] = [x]"
| "insert_by cmp x (y # ys) = (if cmp x y \<le> 0 then x # y # ys else y # insert_by cmp x ys)"

definition sort_by :: "('a \<Rightarrow> 'a \<Rightarrow> int) \<Rightarrow> 'a list \<Rightarrow> 'a list" where
  \<comment> \<open>\<^verbatim>\<open>Array.prototype.sort(cmp)\<close>, a stable sort, as a stable insertion sort\<close>
  "sort_by cmp xs = foldr (insert_by cmp) xs []"

definition extractUniqueNames :: "platform \<Rightarrow> worksheet \<Rightarrow> error + string list" where
  \<comment> \<open>the value assigned to \<^verbatim>\<open>names\<close>; \<^verbatim>\<open>worksheet.columns.slice(3)\<close> throws when
      \<^verbatim>\<open>worksheet.columns\<close> is \<^verbatim>\<open>null\<close>\<close>
  "extractUniqueNames P ws =
     (case columns ws of
        None \<Rightarrow> Inl TypeError
      | Some cols \<Rightarrow>
          Inr (sort_by (localeCompare P)
                 (fold (scanColumn ws (headerRow ws)) (enumerate 0 (drop 3 cols)) [])))"

section \<open>Event filter\<close>

definition filterEvents :: "platform \<Rightarrow> EventData list \<Rightarrow> string option \<Rightarrow> EventData list" where
  \<comment> \<open>the value assigned to \<^verbatim>\<open>events\<close>, from \<^verbatim>\<open>allEvents\<close> and \<^verbatim>\<open>selectedName\<close>\<close>
  "filterEvents P allEvents selectedName =
     (case selectedName of
        None \<Rightarrow> []
      | Some s \<Rightarrow>
          if s = [] then []
          else filter
                 (\<lambda>event. list_ex
                    (\<lambda>slot. case slot of
                               None \<Rightarrow> False
                             | Some cd \<Rightarrow>
                                 val cd \<noteq> [] \<and>
                                 trim (toUpperCase P (val cd)) = trim (toUpperCase P s))
                    (extraData event))
                 allEvents)"

definition getServiceTypeForSelectedName ::
  "platform \<Rightarrow> string option \<Rightarrow> EventData \<Rightarrow> string option" where
  \<comment> \<open>both sides of \<^verbatim>\<open>===\<close> are a string or \<^verbatim>\<open>undefined\<close>; \<^verbatim>\<open>find\<close> visits the empty slots\<close>
  "getServiceTypeForSelectedName P selectedName event =
     (case List.find
             (\<lambda>slot. map_option (\<lambda>c. trim (toUpperCase P (val c))) slot =
                      map_option (\<lambda>s. trim (toUpperCase P s)) selectedName)
             (extraData event) of
        Some (Some matchingCell) \<Rightarrow> Some (serviceType matchingCell)
      | _ \<Rightarrow> None)"

definition orInconnu :: "string option \<Rightarrow> string" where
  \<comment> \<open>\<^verbatim>\<open>v || 'Inconnu'\<close>\<close>
  "orInconnu v = (case v of None \<Rightarrow> ''Inconnu'' | Some t \<Rightarrow> if t = [] then ''Inconnu'' else t)"

definition generateICal ::
  "platform \<Rightarrow> EventData list \<Rightarrow> string option \<Rightarrow> (EventData \<times> string) list" where
  \<comment> \<open>the list handed to \<^verbatim>\<open>downloadICal\<close>: each event with its \<^verbatim>\<open>serviceType\<close>\<close>
  "generateICal P events selectedName =
     map (\<lambda>event. (event, orInconnu (getServiceTypeForSelectedName P selectedName event))) events"

section \<open>Notions used to state the claims\<close>

definition normalized :: "platform \<Rightarrow> string \<Rightarrow> string" where
  \<comment> \<open>case normalization and trimming\<close>
  "normalized P s = trim (toUpperCase P s)"

definition present_cells :: "'a option list \<Rightarrow> 'a list" where
  \<comment> \<open>the written slots of a sparse array, in order\<close>
  "present_cells xs = concat (map (\<lambda>slot. case slot of None \<Rightarrow> [] | Some c \<Rightarrow> [c]) xs)"

definition known_types :: "string set" where
  "known_types = {''12H Jour'', ''12H Nuit'', ''24H''}"

definition valid_date :: "datetime \<Rightarrow> bool" where
  "valid_date t = (month t < 12 \<and> 1 \<le> day t \<and> day t \<le> days_in_month (year t) (month t))"

definition next_day :: "datetime \<Rightarrow> datetime" where
  \<comment> \<open>the calendar day after \<open>t\<close>, at the same time of day\<close>
  "next_day t =
     (if day t < days_in_month (year t) (month t) then t\<lparr>day := day t + 1\<rparr>
      else if month t < 11 then t\<lparr>month := month t + 1, day := 1\<rparr>
      else t\<lparr>year := year t + 1, month := 0, day := 1\<rparr>)"

definition iso_local :: "int \<Rightarrow> nat \<Rightarrow> nat \<Rightarrow> nat \<Rightarrow> nat \<Rightarrow> datetime" where
  \<comment> \<open>the local time year-month-day T hours:minutes, months counted from 1\<close>
  "iso_local y mo d h mi =
     \<lparr>year = y, month = mo - 1, day = d, hours = h, minutes = mi, seconds = 0, millis = 0\<rparr>"

definition days_before_year :: "int \<Rightarrow> int" where
  \<comment> \<open>the number of the first day of year \<open>y\<close>, counted from 1 January 1970\<close>
  "days_before_year y =
     365 * (y - 1970) + (y - 1969) div 4 - (y - 1901) div 100 + (y - 1601) div 400"

definition day_number :: "datetime \<Rightarrow> int" where
  \<comment> \<open>the number of the day of \<open>t\<close>, counted from 1 January 1970\<close>
  "day_number t =
     days_before_year (year t)
     + int (sum_list (map (days_in_month (year t)) [0..<month t]))
     + int (day t) - 1"

definition cell_text :: "js_value option \<Rightarrow> string" where
  \<comment> \<open>the string the extractor tests: empty for a missing value and for a falsy one\<close>
  "cell_text v = (case v of None \<Rightarrow> [] | Some x \<Rightarrow> coerce x)"

definition cell_names :: "cell \<Rightarrow> string set" where
  \<comment> \<open>the name that a cell contributes to the index, if any\<close>
  "cell_names c =
     {s. \<exists>v. cvalue c = Some v \<and> truthy v
          \<and> determineServiceType \<lparr>color = fgColor_argb c, color_theme = fgColor_theme c\<rparr> = ''24H''
          \<and> s = toString v \<and> \<not> test_digit s \<and> trim s \<noteq> []}"

definition total_preorder :: "('a \<Rightarrow> 'a \<Rightarrow> int) \<Rightarrow> bool" where
  \<comment> \<open>a consistent comparison function\<close>
  "total_preorder cmp =
     ((\<forall>a b. cmp a b \<le> 0 \<or> cmp b a \<le> 0) \<and>
      (\<forall>a b c. cmp a b \<le> 0 \<and> cmp b c \<le> 0 \<longrightarrow> cmp a c \<le> 0))"

section \<open>A reference platform\<close>

text \<open>
  One instance of the platform, on which the theorems are run: upper case of the ASCII
  letters, comparison by code units, and a date parser that reads "day month year" and
  "month day" (the year is then 2001), recognising a month by the first three letters of
  its English name, and rejects every other string.
\<close>

definition ascii_upper :: "char \<Rightarrow> char" where
  "ascii_upper c =
     (let n = (of_char c :: nat) in if 97 \<le> n \<and> n \<le> 122 then char_of (n - 32) else c)"

definition ascii_lower :: "char \<Rightarrow> char" where
  "ascii_lower c =
     (let n = (of_char c :: nat) in if 65 \<le> n \<and> n \<le> 90 then char_of (n + 32) else c)"

definition code_unit_compare :: "string \<Rightarrow> string \<Rightarrow> int" where
  "code_unit_compare a b = (if a < b then - 1 else if a = b then 0 else 1)"

fun split_words :: "string \<Rightarrow> string list" where
  "split_words [] = [[]]"
| "split_words (c # cs) =
     (if c = CHR '' '' then [] # split_words cs
      else case split_words cs of [] \<Rightarrow> [[c]] | w # ws \<Rightarrow> (c # w) # ws)"

fun index_of :: "'a \<Rightarrow> 'a list \<Rightarrow> nat option" where
  "index_of x [] = None"
| "index_of x (y # ys) = (if x = y then Some 0 else map_option Suc (index_of x ys))"

definition month_of_word :: "string \<Rightarrow> nat option" where
  "month_of_word w =
     (if length w < 3 then None
      else index_of (map ascii_lower (take 3 w))
             [''jan'', ''feb'', ''mar'', ''apr'', ''may'', ''jun'',
              ''jul'', ''aug'', ''sep'', ''oct'', ''nov'', ''dec''])"

definition all_digits :: "string \<Rightarrow> bool" where
  "all_digits s = (s \<noteq> [] \<and> list_all isDigit s)"

definition ref_Date_parse :: "string \<Rightarrow> datetime option" where
  "ref_Date_parse s =
     (case split_words s of
        [d, w, y] \<Rightarrow>
          if all_digits d \<and> all_digits y
          then map_option (\<lambda>m. newDate (int (digits_to_nat y)) m (digits_to_nat d))
                 (month_of_word w)
          else None
      | [w, d] \<Rightarrow>
          if all_digits d
          then map_option (\<lambda>m. newDate 2001 m (digits_to_nat d)) (month_of_word w)
          else None
      | _ \<Rightarrow> None)"

definition ref_platform :: platform where
  "ref_platform =
     \<lparr>toUpperCase = map ascii_upper, localeCompare = code_unit_compare,
      Date_parse = ref_Date_parse\<rparr>"

section \<open>Sample worksheets\<close>

definition text_cell :: "string \<Rightarrow> cell" where
  "text_cell s = \<lparr>cvalue = Some (VString s), fill_argb = None, fill_theme = None\<rparr>"

definition filled_cell :: "string \<Rightarrow> string option \<Rightarrow> int option \<Rightarrow> cell" where
  "filled_cell s argb theme = \<lparr>cvalue = Some (VString s), fill_argb = argb, fill_theme = theme\<rparr>"

definition value_cell :: "js_value \<Rightarrow> cell" where
  "value_cell v = \<lparr>cvalue = Some v, fill_argb = None, fill_theme = None\<rparr>"

definition sheet_of :: "row list \<Rightarrow> worksheet" where
  \<comment> \<open>a worksheet of four columns\<close>
  "sheet_of rs = \<lparr>ws_rows = rs, ws_columns = Some 4\<rparr>"

definition sample_sheet :: worksheet where
  "sample_sheet =
     \<lparr>ws_rows =
        [[text_cell ''Jour'', text_cell ''Date'', text_cell ''Equipe'', text_cell ''NOM'',
          text_cell ''DESIDERATA'', text_cell ''NOM''],
         [text_cell ''lundi'', text_cell ''15 mars 2025'', text_cell ''A'',
          filled_cell ''Dupont'' (Some ''FF00B0F0'') None, text_cell ''Martin'',
          text_cell ''Durand''],
         [],
         [empty_cell, text_cell ''16 mars 2025'', text_cell ''B'', text_cell ''Durand'',
          empty_cell, filled_cell ''Dupont'' None (Some 9)],
         [text_cell ''note'', empty_cell, empty_cell, text_cell ''Albert'']],
      ws_columns = Some 6\<rparr>"

definition sample_row :: row where
  \<comment> \<open>the second row of the sample sheet\<close>
  "sample_row =
     [text_cell ''lundi'', text_cell ''15 mars 2025'', text_cell ''A'',
      filled_cell ''Dupont'' (Some ''FF00B0F0'') None, text_cell ''Martin'',
      text_cell ''Durand'']"

definition sample_event :: EventData where
  \<comment> \<open>the event of the second row of the sample sheet\<close>
  "sample_event =
     \<lparr>date = ''15 mars 2025'', equipe = ''A'',
      extraData =
        [Some \<lparr>color = Some ''FF00B0F0'', color_theme = None, val = ''Dupont'',
               serviceType = ''12H Jour''\<rparr>,
         Some \<lparr>color = None, color_theme = None, val = ''Martin'', serviceType = ''24H''\<rparr>,
         Some \<lparr>color = None, color_theme = None, val = ''Durand'', serviceType = ''24H''\<rparr>]\<rparr>"

section \<open>Sparse arrays and rows\<close>

lemma at_index_trim_holes: "at_index (trim_holes xs) i = at_index xs i"
proof (induction xs arbitrary: i)
  case Nil
  then show ?case by (simp add: at_index_def)
next
  case (Cons x xs)
  show ?case
  proof (cases i)
    case 0
    then show ?thesis by (auto simp: at_index_def Let_def)
  next
    case (Suc j)
    have "at_index (trim_holes xs) j = at_index xs j" by (rule Cons.IH)
    then show ?thesis using Suc
      by (auto simp: at_index_def Let_def split: if_splits)
  qed
qed

lemma at_index_map_cvalue: "at_index (map cvalue r) i = cvalue (getCell r (Suc i))"
  by (simp add: at_index_def getCell_def empty_cell_def)

lemma at_index_row_values:
  "at_index (row_values r) c = (if c = 0 then None else cvalue (getCell r c))"
proof (cases c)
  case 0
  then show ?thesis by (simp add: at_index_def row_values_def Let_def)
next
  case (Suc i)
  have "at_index (row_values r) (Suc i) = at_index (trim_holes (map cvalue r)) i"
    by (auto simp: row_values_def Let_def at_index_def)
  then show ?thesis using Suc by (simp add: at_index_trim_holes at_index_map_cvalue)
qed

lemma at_index_drop: "at_index (drop n xs) i = at_index xs (n + i)"
  by (auto simp: at_index_def)

lemma at_index_map: "at_index (map (map_option f) xs) i = map_option f (at_index xs i)"
  by (simp add: at_index_def)

lemma at_index_rowValues:
  "at_index (rowValues r) i = map_option coerce (cvalue (getCell r (Suc i)))"
  by (simp add: rowValues_def at_index_map at_index_drop at_index_row_values)

lemma at_index_enumerate_map:
  "at_index (map (\<lambda>(index, v). map_option (f index) v) (enumerate n xs)) k
     = map_option (f (n + k)) (at_index xs k)"
  by (simp add: at_index_def nth_enumerate_eq)

lemma parseSheet_fold:
  "fold (\<lambda>r acc. case parseRow r of None \<Rightarrow> acc | Some ev \<Rightarrow> acc @ [ev]) rs acc
     = acc @ List.map_filter parseRow rs"
  by (induction rs arbitrary: acc) (auto simp: List.map_filter_simps split: option.splits)

lemma parseSheet_map_filter: "parseSheet ws = List.map_filter parseRow (eachRow ws)"
  by (simp add: parseSheet_def parseSheet_fold)

lemma at_index_rowValues_1: "at_index (rowValues r) 1 = map_option coerce (cvalue (getCell r 2))"
  using at_index_rowValues [of r 1] by (simp add: numeral_2_eq_2)

lemma at_index_rowValues_2: "at_index (rowValues r) 2 = map_option coerce (cvalue (getCell r 3))"
  using at_index_rowValues [of r 2] by (simp add: numeral_3_eq_3)

lemma at_index_extras:
  "at_index (map (\<lambda>(index, v). map_option (extraCellOf r index) v)
               (enumerate 0 (drop 3 (rowValues r)))) k
   = map_option (\<lambda>v. extraCellOf r k (coerce v)) (cvalue (getCell r (k + 4)))"
proof -
  have "at_index (drop 3 (rowValues r)) k = map_option coerce (cvalue (getCell r (k + 4)))"
    using at_index_rowValues [of r "3 + k"] by (simp add: at_index_drop add.commute)
  then show ?thesis
    by (simp add: at_index_enumerate_map option.map_comp comp_def)
qed

lemma parseRow_Some_iff:
  "parseRow r = Some ev \<longleftrightarrow>
     (\<exists>dv tv. cvalue (getCell r 2) = Some dv \<and> cvalue (getCell r 3) = Some tv
        \<and> coerce dv \<noteq> [] \<and> coerce tv \<noteq> []
        \<and> ev = \<lparr>date = coerce dv, equipe = coerce tv,
                 extraData = map (\<lambda>(index, v). map_option (extraCellOf r index) v)
                               (enumerate 0 (drop 3 (rowValues r)))\<rparr>)"
  unfolding parseRow_def Let_def at_index_rowValues_1 at_index_rowValues_2
  by (auto split: option.splits)

lemma in_map_filter:
  "y \<in> set (List.map_filter f xs) \<longleftrightarrow> (\<exists>x \<in> set xs. f x = Some y)"
  by (induction xs) (auto split: option.splits)

lemma in_parseSheet:
  "ev \<in> set (parseSheet ws) \<longleftrightarrow> (\<exists>r \<in> set (ws_rows ws). hasValues r \<and> parseRow r = Some ev)"
  by (auto simp: parseSheet_map_filter in_map_filter eachRow_def)

lemma present_cells_simps [simp]:
  "present_cells [] = []"
  "present_cells (None # xs) = present_cells xs"
  "present_cells (Some c # xs) = c # present_cells xs"
  by (simp_all add: present_cells_def)

lemma present_cells_drop_trim:
  "present_cells (drop n (trim_holes xs)) = present_cells (drop n xs)"
proof (induction xs arbitrary: n)
  case Nil
  then show ?case by simp
next
  case (Cons x xs)
  show ?case
  proof (cases n)
    case 0
    have "present_cells (trim_holes xs) = present_cells xs"
      using Cons.IH [of 0] by simp
    then show ?thesis using 0 by (cases x) (auto simp: Let_def)
  next
    case (Suc m)
    have "present_cells (drop m (trim_holes xs)) = present_cells (drop m xs)"
      by (rule Cons.IH)
    then show ?thesis using Suc by (auto simp: Let_def)
  qed
qed

lemma present_cells_map: "present_cells (map (map_option f) xs) = map f (present_cells xs)"
proof (induction xs)
  case Nil
  then show ?case by simp
next
  case (Cons x xs)
  then show ?case by (cases x) simp_all
qed

lemma val_extraCellOf: "val (extraCellOf r i v) = v"
  by (simp add: extraCellOf_def Let_def)

lemma present_cells_extras:
  "map val (present_cells (map (\<lambda>(index, v). map_option (extraCellOf r index) v)
                            (enumerate n xs))) = present_cells xs"
proof (induction xs arbitrary: n)
  case Nil
  then show ?case by simp
next
  case (Cons x xs)
  then show ?case by (cases x) (simp_all add: val_extraCellOf)
qed

lemma drop_rowValues:
  "drop 3 (rowValues r) = map (map_option coerce) (drop 3 (trim_holes (map cvalue r)))"
  by (simp add: rowValues_def row_values_def Let_def drop_map)

lemma extras_order:
  assumes "parseRow r = Some ev"
  shows "map val (present_cells (extraData ev)) =
         map coerce (present_cells (drop 3 (map cvalue r)))"
proof -
  have "extraData ev = map (\<lambda>(index, v). map_option (extraCellOf r index) v)
                               (enumerate 0 (drop 3 (rowValues r)))"
    using assms by (auto simp: parseRow_Some_iff)
  then show ?thesis
    by (simp add: present_cells_extras drop_rowValues present_cells_map present_cells_drop_trim)
qed

lemma hasValues_getCell: "cvalue (getCell r c) \<noteq> None \<Longrightarrow> hasValues r"
  by (auto simp: getCell_def hasValues_def empty_cell_def list_ex_iff split: if_splits)

section \<open>Filtering and matching\<close>

lemma set_present_cells: "set (present_cells xs) = {c. Some c \<in> set xs}"
proof (induction xs)
  case Nil
  then show ?case by simp
next
  case (Cons x xs)
  then show ?case by (cases x) auto
qed

lemma list_ex_slots:
  "list_ex (\<lambda>slot. case slot of None \<Rightarrow> False | Some c \<Rightarrow> Q c) xs
     \<longleftrightarrow> (\<exists>c \<in> set (present_cells xs). Q c)"
  by (auto simp: list_ex_iff set_present_cells split: option.splits)

lemma find_slots_Some:
  "List.find (\<lambda>slot. map_option f slot = Some y) xs =
     map_option Some (List.find (\<lambda>c. f c = y) (present_cells xs))"
proof (induction xs)
  case Nil
  then show ?case by simp
next
  case (Cons x xs)
  then show ?case by (cases x) auto
qed

lemma find_slots_None:
  "List.find (\<lambda>slot. map_option f slot = None) xs = None
   \<or> List.find (\<lambda>slot. map_option f slot = None) xs = Some None"
proof (induction xs)
  case Nil
  then show ?case by simp
next
  case (Cons x xs)
  then show ?case by (cases x) auto
qed

lemma getServiceType_Some:
  "getServiceTypeForSelectedName P (Some s) ev =
     map_option serviceType
       (List.find (\<lambda>c. trim (toUpperCase P (val c)) = trim (toUpperCase P s))
          (present_cells (extraData ev)))"
proof -
  have f: "List.find
             (\<lambda>slot. map_option (\<lambda>c. trim (toUpperCase P (val c))) slot =
                      map_option (\<lambda>s. trim (toUpperCase P s)) (Some s))
             (extraData ev) =
           map_option Some
             (List.find (\<lambda>c. trim (toUpperCase P (val c)) = trim (toUpperCase P s))
                (present_cells (extraData ev)))"
    using find_slots_Some [of "\<lambda>c. trim (toUpperCase P (val c))" "trim (toUpperCase P s)"
        "extraData ev"]
    by (simp only: option.map)
  show ?thesis
    unfolding getServiceTypeForSelectedName_def f
    by (simp split: option.splits)
qed

lemma getServiceType_None: "getServiceTypeForSelectedName P None ev = None"
proof -
  have "List.find
          (\<lambda>slot. map_option (\<lambda>c. trim (toUpperCase P (val c))) slot =
                   map_option (\<lambda>s. trim (toUpperCase P s)) None)
          (extraData ev) \<in> {None, Some None}"
    using find_slots_None [of "\<lambda>c. trim (toUpperCase P (val c))" "extraData ev"]
    by (simp only: option.map insert_iff) blast
  then show ?thesis
    unfolding getServiceTypeForSelectedName_def by auto
qed

lemma filtered_has_match:
  assumes "ev \<in> set (filterEvents P allEvents (Some s))"
  shows "ev \<in> set allEvents
       \<and> (\<exists>c \<in> set (present_cells (extraData ev)).
            trim (toUpperCase P (val c)) = trim (toUpperCase P s))"
  using assms by (auto simp: filterEvents_def list_ex_slots split: if_splits)

lemma filtered_resolves:
  assumes "ev \<in> set (filterEvents P allEvents (Some s))"
  shows "\<exists>c \<in> set (present_cells (extraData ev)).
           getServiceTypeForSelectedName P (Some s) ev = Some (serviceType c)"
proof -
  obtain c0 where "c0 \<in> set (present_cells (extraData ev))"
      "trim (toUpperCase P (val c0)) = trim (toUpperCase P s)"
    using filtered_has_match [OF assms] by blast
  then obtain c where
    c: "List.find (\<lambda>c. trim (toUpperCase P (val c)) = trim (toUpperCase P s))
          (present_cells (extraData ev)) = Some c"
    by (cases "List.find (\<lambda>c. trim (toUpperCase P (val c)) = trim (toUpperCase P s))
          (present_cells (extraData ev))") (auto simp: find_None_iff)
  then have "c \<in> set (present_cells (extraData ev))"
    by (auto simp: find_Some_iff)
  then show ?thesis using c by (auto simp: getServiceType_Some)
qed

lemma determineServiceType_known: "determineServiceType cd \<in> known_types"
  by (simp add: determineServiceType_def known_types_def)

lemma extras_known:
  "c \<in> set (present_cells (map (\<lambda>(index, v). map_option (extraCellOf r index) v)
                            (enumerate n xs))) \<Longrightarrow> serviceType c \<in> known_types"
proof (induction xs arbitrary: n)
  case Nil
  then show ?case by simp
next
  case (Cons x xs)
  then show ?case
    by (cases x) (auto simp: extraCellOf_def Let_def determineServiceType_known)
qed

lemma parseSheet_known:
  assumes "ev \<in> set (parseSheet ws)" and "c \<in> set (present_cells (extraData ev))"
  shows "serviceType c \<in> known_types"
proof -
  obtain r where "parseRow r = Some ev"
    using assms(1) by (auto simp: in_parseSheet)
  then have "extraData ev = map (\<lambda>(index, v). map_option (extraCellOf r index) v)
                               (enumerate 0 (drop 3 (rowValues r)))"
    by (auto simp: parseRow_Some_iff)
  then show ?thesis using assms(2) extras_known by simp
qed

lemma orInconnu_known: "t \<in> known_types \<Longrightarrow> orInconnu (Some t) = t"
  by (auto simp: orInconnu_def known_types_def)

section \<open>The name index\<close>

lemma set_set_add: "set (set_add x xs) = insert x (set xs)"
  by (auto simp: set_add_def)

lemma distinct_set_add: "distinct xs \<Longrightarrow> distinct (set_add x xs)"
  by (simp add: set_add_def)

lemma set_scanCell: "set (scanCell c acc) = set acc \<union> cell_names c"
  by (auto simp: scanCell_def cell_names_def Let_def set_set_add split: option.splits)

lemma distinct_scanCell: "distinct acc \<Longrightarrow> distinct (scanCell c acc)"
  by (simp add: scanCell_def Let_def distinct_set_add split: option.splits)

lemma set_fold_scanCell:
  "set (fold (\<lambda>r. scanCell (getCell r col)) rs acc)
     = set acc \<union> (\<Union>r \<in> set rs. cell_names (getCell r col))"
  by (induction rs arbitrary: acc) (auto simp: set_scanCell)

lemma distinct_fold_scanCell:
  "distinct acc \<Longrightarrow> distinct (fold (\<lambda>r. scanCell (getCell r col)) rs acc)"
  by (induction rs arbitrary: acc) (simp_all add: distinct_scanCell)

lemma set_scanColumn:
  "set (scanColumn ws hdr (i, col) acc) =
     set acc \<union> (if header_kept (cvalue (getCell hdr (i + 4)))
                 then (\<Union>r \<in> set (eachRow ws). cell_names (getCell r col)) else {})"
  by (simp add: scanColumn_def set_fold_scanCell)

lemma distinct_scanColumn: "distinct acc \<Longrightarrow> distinct (scanColumn ws hdr ic acc)"
  by (cases ic) (simp add: scanColumn_def distinct_fold_scanCell)

lemma set_fold_scanColumn:
  "set (fold (scanColumn ws hdr) ics acc) =
     set acc \<union> (\<Union>ic \<in> set ics.
                   if header_kept (cvalue (getCell hdr (fst ic + 4)))
                   then (\<Union>r \<in> set (eachRow ws). cell_names (getCell r (snd ic))) else {})"
proof (induction ics arbitrary: acc)
  case Nil
  then show ?case by simp
next
  case (Cons ic ics)
  obtain i col where ic: "ic = (i, col)" by (cases ic)
  show ?case unfolding ic using Cons.IH [of "scanColumn ws hdr (i, col) acc"]
    by (simp add: set_scanColumn Un_assoc)
qed

lemma distinct_fold_scanColumn:
  "distinct acc \<Longrightarrow> distinct (fold (scanColumn ws hdr) ics acc)"
  by (induction ics arbitrary: acc) (simp_all add: distinct_scanColumn)

lemma set_enumerate_columns:
  "set (enumerate 0 (drop 3 [1..<n + 1])) = {(i, i + 4) | i. i + 4 \<le> n}"
proof -
  have d: "drop 3 [1..<n + 1] = [4..<Suc n]"
    by (simp add: drop_upt del: upt_Suc)
  show ?thesis
    unfolding d by (auto simp: in_set_enumerate_eq simp del: upt_Suc)
qed

lemma cell_names_eachRow:
  "(\<Union>r \<in> set (eachRow ws). cell_names (getCell r col))
     = (\<Union>r \<in> set (ws_rows ws). cell_names (getCell r col))"
proof -
  have "hasValues r" if "s \<in> cell_names (getCell r col)" for r s
    using that hasValues_getCell [of r col] by (auto simp: cell_names_def)
  then show ?thesis by (auto simp: eachRow_def)
qed

lemma in_names_raw:
  "s \<in> set (fold (scanColumn ws hdr) (enumerate 0 (drop 3 [1..<n + 1])) []) \<longleftrightarrow>
     (\<exists>i r. i + 4 \<le> n \<and> header_kept (cvalue (getCell hdr (i + 4)))
        \<and> r \<in> set (ws_rows ws) \<and> s \<in> cell_names (getCell r (i + 4)))"
  (is "?A \<longleftrightarrow> ?B")
proof -
  let ?F = "\<lambda>ic. if header_kept (cvalue (getCell hdr (fst ic + 4)))
                 then (\<Union>r \<in> set (ws_rows ws). cell_names (getCell r (snd ic))) else {}"
  have A: "?A \<longleftrightarrow> (\<exists>ic \<in> {(i, i + 4) | i. i + 4 \<le> n}. s \<in> ?F ic)"
    unfolding set_fold_scanColumn set_enumerate_columns cell_names_eachRow
    by (simp only: list.set Un_empty_left UN_iff)
  show ?thesis
  proof
    assume ?A
    then obtain ic where "ic \<in> {(i, i + 4) | i. i + 4 \<le> n}" and f: "s \<in> ?F ic"
      unfolding A by blast
    then obtain i where ic: "ic = (i, i + 4)" and i: "i + 4 \<le> n"
      by blast
    from f have "header_kept (cvalue (getCell hdr (i + 4)))"
      and "\<exists>r \<in> set (ws_rows ws). s \<in> cell_names (getCell r (i + 4))"
      unfolding ic by (simp_all split: if_splits)
    then show ?B using i by blast
  next
    assume ?B
    then obtain i r where i: "i + 4 \<le> n"
      and k: "header_kept (cvalue (getCell hdr (i + 4)))"
      and r: "r \<in> set (ws_rows ws)" "s \<in> cell_names (getCell r (i + 4))"
      by blast
    have "s \<in> ?F (i, i + 4)" using k r by auto
    moreover have "(i, i + 4) \<in> {(i, i + 4) | i. i + 4 \<le> n}"
      using i by blast
    ultimately show ?A unfolding A by (rule bexI)
  qed
qed

lemma set_insert_by: "set (insert_by cmp x xs) = insert x (set xs)"
  by (induction xs) auto

lemma distinct_insert_by: "distinct (insert_by cmp x xs) \<longleftrightarrow> x \<notin> set xs \<and> distinct xs"
  by (induction xs) (auto simp: set_insert_by)

lemma sort_by_Cons: "sort_by cmp (x # xs) = insert_by cmp x (sort_by cmp xs)"
  by (simp add: sort_by_def)

lemma set_sort_by: "set (sort_by cmp xs) = set xs"
proof (induction xs)
  case Nil
  then show ?case by (simp add: sort_by_def)
next
  case (Cons x xs)
  then show ?case by (simp add: sort_by_Cons set_insert_by)
qed

lemma distinct_sort_by: "distinct (sort_by cmp xs) = distinct xs"
proof (induction xs)
  case Nil
  then show ?case by (simp add: sort_by_def)
next
  case (Cons x xs)
  then show ?case by (simp add: sort_by_Cons distinct_insert_by set_sort_by)
qed

lemma sorted_insert_by:
  assumes "total_preorder cmp" and "sorted_wrt (\<lambda>a b. cmp a b \<le> 0) xs"
  shows "sorted_wrt (\<lambda>a b. cmp a b \<le> 0) (insert_by cmp x xs)"
  using assms(2)
proof (induction xs)
  case Nil
  then show ?case by simp
next
  case (Cons y ys)
  have tot: "cmp a b \<le> 0 \<or> cmp b a \<le> 0" for a b
    using assms(1) unfolding total_preorder_def by blast
  have tr: "cmp a c \<le> 0" if "cmp a b \<le> 0" "cmp b c \<le> 0" for a b c
    using assms(1) that unfolding total_preorder_def by blast
  have ys: "\<And>z. z \<in> set ys \<Longrightarrow> cmp y z \<le> 0"
    and s: "sorted_wrt (\<lambda>a b. cmp a b \<le> 0) ys"
    using Cons.prems by simp_all
  show ?case
  proof (cases "cmp x y \<le> 0")
    case True
    have i: "insert_by cmp x (y # ys) = x # y # ys" using True by simp
    have "cmp x z \<le> 0" if "z \<in> set ys" for z
      using tr [OF True ys [OF that]] .
    then have "\<forall>z \<in> set (y # ys). cmp x z \<le> 0" using True by simp
    then show ?thesis unfolding i using Cons.prems by (simp only: sorted_wrt.simps) simp
  next
    case False
    have i: "insert_by cmp x (y # ys) = y # insert_by cmp x ys" using False by simp
    have yx: "cmp y x \<le> 0" using tot [of x y] False by blast
    have "\<forall>z \<in> set (insert_by cmp x ys). cmp y z \<le> 0"
      using yx ys by (simp add: set_insert_by)
    moreover have "sorted_wrt (\<lambda>a b. cmp a b \<le> 0) (insert_by cmp x ys)"
      using Cons.IH [OF s] .
    ultimately show ?thesis unfolding i by (simp only: sorted_wrt.simps)
  qed
qed

lemma sorted_sort_by:
  assumes "total_preorder cmp"
  shows "sorted_wrt (\<lambda>a b. cmp a b \<le> 0) (sort_by cmp xs)"
proof (induction xs)
  case Nil
  then show ?case by (simp add: sort_by_def)
next
  case (Cons x xs)
  then show ?case by (simp add: sort_by_Cons sorted_insert_by [OF assms])
qed

lemma code_unit_compare_le: "code_unit_compare a b \<le> 0 \<longleftrightarrow> a \<le> b"
  by (auto simp: code_unit_compare_def)

lemma total_preorder_code_unit_compare: "total_preorder code_unit_compare"
  unfolding total_preorder_def code_unit_compare_le
  by (meson linear order_trans)

section \<open>The calendar\<close>

lemma days_in_month_pos: "Suc 0 \<le> days_in_month y m"
  by (simp add: days_in_month_def)

lemma normalize_ymd_in_range:
  "m < 12 \<Longrightarrow> Suc 0 \<le> d \<Longrightarrow> d \<le> days_in_month y m \<Longrightarrow> normalize_ymd y m d = (y, m, d)"
  by (subst normalize_ymd.simps) simp

lemma normalize_ymd_next:
  "m < 12 \<Longrightarrow> normalize_ymd y m (Suc (days_in_month y m)) =
     (if m = 11 then (y + 1, 0, 1) else (y, m + 1, 1))"
  by (subst normalize_ymd.simps) (simp add: normalize_ymd_in_range days_in_month_pos)

lemma setDate_next_day:
  assumes "valid_date t"
  shows "setDate t (day t + 1) = next_day t"
proof (cases "day t < days_in_month (year t) (month t)")
  case True
  then show ?thesis using assms
    by (simp add: setDate_def next_day_def valid_date_def normalize_ymd_in_range)
next
  case False
  then have d: "day t = days_in_month (year t) (month t)"
    using assms by (simp add: valid_date_def)
  have "normalize_ymd (year t) (month t) (Suc (day t)) =
        (if month t = 11 then (year t + 1, 0, 1) else (year t, month t + 1, 1))"
    unfolding d using assms by (intro normalize_ymd_next) (simp add: valid_date_def)
  then show ?thesis using assms d
    by (auto simp: setDate_def next_day_def valid_date_def)
qed

lemma valid_next_day: "valid_date t \<Longrightarrow> valid_date (next_day t)"
  using days_in_month_pos by (auto simp: valid_date_def next_day_def)

lemma div_succ:
  fixes a n :: int
  assumes "0 < n"
  shows "(a + 1) div n = a div n + (if (a + 1) mod n = 0 then 1 else 0)"
proof -
  define q r where "q = a div n" and "r = a mod n"
  have a: "a = n * q + r" and r: "0 \<le> r" "r < n"
    using assms by (simp_all add: q_def r_def)
  show ?thesis
  proof (cases "r + 1 < n")
    case True
    have "(a + 1) div n = q"
      by (rule int_div_pos_eq [of _ _ _ "r + 1"]) (use a r True in auto)
    moreover have "(a + 1) mod n = r + 1"
      by (rule int_mod_pos_eq [of _ _ q]) (use a r True in auto)
    ultimately show ?thesis using r by (simp add: q_def)
  next
    case False
    then have n: "r + 1 = n" using r by simp
    have e: "a + 1 = n * (q + 1) + 0" using a n by (simp add: algebra_simps)
    have "(a + 1) div n = q + 1"
      by (rule int_div_pos_eq [of _ _ _ 0]) (use e assms in auto)
    moreover have "(a + 1) mod n = 0"
      by (rule int_mod_pos_eq [of _ _ "q + 1"]) (use e assms in auto)
    ultimately show ?thesis by (simp add: q_def)
  qed
qed

lemma mod_shift: "((y::int) - n * k) mod n = y mod n"
  using mod_mult_self2 [of y n "- k"] by simp

lemma year_length:
  "days_before_year (y + 1) = days_before_year y + (if is_leap y then 366 else 365)"
proof -
  have m4: "(y - 1968) mod 4 = y mod 4" using mod_shift [of y 4 492] by simp
  have m100: "(y - 1900) mod 100 = y mod 100" using mod_shift [of y 100 19] by simp
  have m400: "(y - 1600) mod 400 = y mod 400" using mod_shift [of y 400 4] by simp
  have d4: "(y - 1968) div 4 = (y - 1969) div 4 + (if y mod 4 = 0 then 1 else 0)"
    using div_succ [of 4 "y - 1969"] m4 by simp
  have d100: "(y - 1900) div 100 = (y - 1901) div 100 + (if y mod 100 = 0 then 1 else 0)"
    using div_succ [of 100 "y - 1901"] m100 by simp
  have d400: "(y - 1600) div 400 = (y - 1601) div 400 + (if y mod 400 = 0 then 1 else 0)"
    using div_succ [of 400 "y - 1601"] m400 by simp
  have c1: "y mod 100 = 0" if "y mod 400 = 0"
    using that mod_mod_cancel [of 100 400 y] by simp
  have c2: "y mod 4 = 0" if "y mod 100 = 0"
    using that mod_mod_cancel [of 4 100 y] by simp
  show ?thesis
    using c1 c2 by (simp add: days_before_year_def is_leap_def d4 d100 d400)
qed

lemma sum_months: "sum_list (map (days_in_month y) [0..<12]) = (if is_leap y then 366 else 365)"
  by (simp add: upt_rec days_in_month_def)

lemma day_number_next_day:
  assumes "valid_date t"
  shows "day_number (next_day t) = day_number t + 1"
proof -
  have v: "month t < 12" "day t \<le> days_in_month (year t) (month t)"
    using assms by (simp_all add: valid_date_def)
  consider (a) "day t < days_in_month (year t) (month t)"
    | (b) "day t = days_in_month (year t) (month t)" "month t < 11"
    | (c) "day t = days_in_month (year t) (month t)" "month t = 11"
    using v by linarith
  then show ?thesis
  proof cases
    case a
    then show ?thesis by (simp add: next_day_def day_number_def)
  next
    case b
    then show ?thesis by (simp add: next_day_def day_number_def)
  next
    case c
    have "[0..<12::nat] = [0..<11] @ [11]"
      using upt_Suc_append [of 0 11] by simp
    then have "sum_list (map (days_in_month (year t)) [0..<12]) =
          sum_list (map (days_in_month (year t)) [0..<11]) + days_in_month (year t) 11"
      by simp
    then have "int (sum_list (map (days_in_month (year t)) [0..<11])) + int (day t) =
          (if is_leap (year t) then 366 else 365)"
      using c sum_months [of "year t"] by (simp split: if_splits)
    then show ?thesis using c
      by (simp add: next_day_def day_number_def year_length)
  qed
qed

section \<open>The resolver\<close>

lemma eventWindow_valid:
  assumes "valid_date d"
  shows "eventWindow (Some d) ''12H Jour'' =
           Inr (Some (d\<lparr>hours := 7, minutes := 30\<rparr>), Some (d\<lparr>hours := 19, minutes := 30\<rparr>))"
    and "eventWindow (Some d) ''12H Nuit'' =
           Inr (Some (d\<lparr>hours := 19, minutes := 30\<rparr>),
                Some ((next_day d)\<lparr>hours := 7, minutes := 30\<rparr>))"
    and "eventWindow (Some d) ''24H'' =
           Inr (Some (d\<lparr>hours := 7, minutes := 30\<rparr>),
                Some ((next_day d)\<lparr>hours := 7, minutes := 30\<rparr>))"
  using setDate_next_day [OF assms] by (simp_all add: eventWindow_def setHours_def)

lemma show_nat_15: "show_nat 15 = ''15''"
  by code_simp

lemma show_nat_2025: "show_nat 2025 = ''2025''"
  by code_simp

lemma Number_15: "Number (Some ''15'') = Some 15"
  by code_simp

lemma Number_2025: "Number (Some ''2025'') = Some 2025"
  by code_simp

lemma newDate_2025_2_15: "newDate 2025 2 15 = iso_local 2025 3 15 0 0"
  by code_simp

lemma resolveDate_mars:
  assumes "Date_parse P ''15 mars 2025'' = Some t"
    and "year t = 2025" and "month t = 2" and "day t = 15"
    and "Date_parse P ''mars 1'' = Some u" and "month u = 2"
  shows "resolveDate P (DString ''15 mars 2025'') = Inr (Some (iso_local 2025 3 15 0 0))"
proof -
  have parts: "formatToParts (Date_parse P ''15 mars 2025'') =
      Inr [(''day'', ''15''), (''literal'', '' ''), (''month'', ''mars''),
           (''literal'', '' ''), (''year'', ''2025'')]"
    using assms(1-4) by (simp add: formatToParts_def show_nat_15 show_nat_2025 month_names_fr_def)
  show ?thesis
    unfolding resolveDate_def
    by (simp add: parts part_value_def concat_undefined_def Number_15 Number_2025 assms(5,6)
        newDate_2025_2_15)
qed

lemma eventWindow_error:
  "eventWindow dt svc = Inl e \<longleftrightarrow> e = UnrecognizedServiceTypeError \<and> svc \<notin> known_types"
  by (auto simp: eventWindow_def known_types_def)

lemma eventWindow_known: "svc \<in> known_types \<Longrightarrow> \<exists>w. eventWindow dt svc = Inr w"
  by (auto simp: eventWindow_def known_types_def)

lemma resolveDate_error_kinds:
  "resolveDate P dv = Inl e \<Longrightarrow>
     e = InvalidDateError \<and> (\<exists>s. dv = DString s \<and> Date_parse P s \<noteq> None)
     \<or> e = RangeError \<and> (\<exists>s. dv = DString s \<and> Date_parse P s = None)
     \<or> e = UnrecognizedDateFormatError \<and> dv = DOther"
  by (cases dv)
     (auto simp: resolveDate_def formatToParts_def Let_def
           split: option.splits sum.splits prod.splits)

lemma getEventTimes_error:
  "getEventTimes P dv svc = Inl e \<longleftrightarrow>
     resolveDate P dv = Inl e
     \<or> (\<exists>dt. resolveDate P dv = Inr dt) \<and> e = UnrecognizedServiceTypeError \<and> svc \<notin> known_types"
proof (cases "resolveDate P dv")
  case (Inl e')
  then have "e' \<noteq> UnrecognizedServiceTypeError"
    using resolveDate_error_kinds [of P dv e'] by auto
  then show ?thesis using Inl by (auto simp: getEventTimes_def)
next
  case (Inr dt)
  then show ?thesis by (simp add: getEventTimes_def eventWindow_error)
qed

lemma getEventTimes_known:
  "svc \<in> known_types \<Longrightarrow> getEventTimes P dv svc \<noteq> Inl UnrecognizedServiceTypeError"
  using resolveDate_error_kinds [of P dv UnrecognizedServiceTypeError]
  by (auto simp: getEventTimes_error)

section \<open>Claims\<close>

text \<open>
  C1. Classification is total and first match wins: the colour FF00B0F0 gives
  12H Jour whatever the theme index is; any other colour (or none) with theme index 9
  gives 12H Nuit; everything else, both attributes absent included, gives 24H.
\<close>

theorem C1_classification:
  "determineServiceType \<lparr>color = Some ''FF00B0F0'', color_theme = t\<rparr> = ''12H Jour''
   \<and> (c \<noteq> Some ''FF00B0F0'' \<longrightarrow>
        determineServiceType \<lparr>color = c, color_theme = Some 9\<rparr> = ''12H Nuit'')
   \<and> (c \<noteq> Some ''FF00B0F0'' \<and> t \<noteq> Some 9 \<longrightarrow>
        determineServiceType \<lparr>color = c, color_theme = t\<rparr> = ''24H'')
   \<and> determineServiceType \<lparr>color = None, color_theme = None\<rparr> = ''24H''
   \<and> determineServiceType \<lparr>color = c, color_theme = t\<rparr> \<in> {''12H Jour'', ''12H Nuit'', ''24H''}"
  by (simp add: determineServiceType_def)

theorem C1_classification_witness:
  "determineServiceType \<lparr>color = Some ''FF00B0F0'', color_theme = Some 9\<rparr> = ''12H Jour''
   \<and> determineServiceType \<lparr>color = Some ''FFFFFFFF'', color_theme = Some 9\<rparr> = ''12H Nuit''
   \<and> determineServiceType \<lparr>color = Some ''FFFFFFFF'', color_theme = Some 4\<rparr> = ''24H''
   \<and> determineServiceType \<lparr>color = None, color_theme = None\<rparr> = ''24H''"
  using C1_classification [of "Some 9" "Some ''FFFFFFFF''"]
    C1_classification [of "Some 4" "Some ''FFFFFFFF''"]
  by simp

text \<open>
  C2. For every valid calendar date \<open>d\<close> given to the resolver as a \<^verbatim>\<open>Date\<close>, the
  window is: for 12H Jour, \<open>d\<close> at 07:30 to \<open>d\<close> at 19:30; for 12H Nuit, \<open>d\<close> at 19:30 to
  the day after \<open>d\<close> at 07:30; for 24H, \<open>d\<close> at 07:30 to the day after \<open>d\<close> at 07:30. The
  day after is again a calendar date and its day number is one more. Seconds and
  milliseconds are those of \<open>d\<close>.
\<close>

theorem C2_window:
  assumes "valid_date d"
  shows "getEventTimes P (DDate (Some d)) ''12H Jour'' =
           Inr (Some (d\<lparr>hours := 7, minutes := 30\<rparr>), Some (d\<lparr>hours := 19, minutes := 30\<rparr>))
       \<and> getEventTimes P (DDate (Some d)) ''12H Nuit'' =
           Inr (Some (d\<lparr>hours := 19, minutes := 30\<rparr>),
                Some ((next_day d)\<lparr>hours := 7, minutes := 30\<rparr>))
       \<and> getEventTimes P (DDate (Some d)) ''24H'' =
           Inr (Some (d\<lparr>hours := 7, minutes := 30\<rparr>),
                Some ((next_day d)\<lparr>hours := 7, minutes := 30\<rparr>))
       \<and> valid_date (next_day d)
       \<and> day_number (next_day d) = day_number d + 1"
  using eventWindow_valid [OF assms] valid_next_day [OF assms] day_number_next_day [OF assms]
  by (simp add: getEventTimes_def resolveDate_def)

theorem C2_window_witness:
  "valid_date (iso_local 2025 12 31 0 0)
   \<and> getEventTimes ref_platform (DDate (Some (iso_local 2025 12 31 0 0))) ''12H Jour'' =
       Inr (Some (iso_local 2025 12 31 7 30), Some (iso_local 2025 12 31 19 30))
   \<and> getEventTimes ref_platform (DDate (Some (iso_local 2025 12 31 0 0))) ''12H Nuit'' =
       Inr (Some (iso_local 2025 12 31 19 30), Some (iso_local 2026 1 1 7 30))
   \<and> getEventTimes ref_platform (DDate (Some (iso_local 2025 12 31 0 0))) ''24H'' =
       Inr (Some (iso_local 2025 12 31 7 30), Some (iso_local 2026 1 1 7 30))
   \<and> day_number (iso_local 2026 1 1 0 0) = day_number (iso_local 2025 12 31 0 0) + 1"
proof -
  have v: "valid_date (iso_local 2025 12 31 0 0)"
    by (simp add: valid_date_def iso_local_def days_in_month_def)
  have n: "next_day (iso_local 2025 12 31 0 0) = iso_local 2026 1 1 0 0"
    by (simp add: next_day_def iso_local_def days_in_month_def)
  show ?thesis
    using C2_window [OF v, of ref_platform] v unfolding n by (simp add: iso_local_def)
qed

text \<open>
  C3. On a platform whose date parser reads "15 mars 2025" as 15 March 2025 and
  "mars 1" as a day of March, the resolver rebuilds the date of "15 mars 2025" from its
  French breakdown (day 15, month "mars", year 2025) and returns 2025-03-15T07:30 to
  2025-03-15T19:30 for 12H Jour, 2025-03-15T19:30 to 2025-03-16T07:30 for 12H Nuit, and
  2025-03-15T07:30 to 2025-03-16T07:30 for 24H.
\<close>

theorem C3_mars:
  assumes "Date_parse P ''15 mars 2025'' = Some t"
    and "year t = 2025" and "month t = 2" and "day t = 15"
    and "Date_parse P ''mars 1'' = Some u" and "month u = 2"
  shows "getEventTimes P (DString ''15 mars 2025'') ''12H Jour'' =
           Inr (Some (iso_local 2025 3 15 7 30), Some (iso_local 2025 3 15 19 30))
       \<and> getEventTimes P (DString ''15 mars 2025'') ''12H Nuit'' =
           Inr (Some (iso_local 2025 3 15 19 30), Some (iso_local 2025 3 16 7 30))
       \<and> getEventTimes P (DString ''15 mars 2025'') ''24H'' =
           Inr (Some (iso_local 2025 3 15 7 30), Some (iso_local 2025 3 16 7 30))"
proof -
  have v: "valid_date (iso_local 2025 3 15 0 0)"
    by (simp add: valid_date_def iso_local_def days_in_month_def)
  have n: "next_day (iso_local 2025 3 15 0 0) = iso_local 2025 3 16 0 0"
    by (simp add: next_day_def iso_local_def days_in_month_def)
  show ?thesis
    using resolveDate_mars [OF assms] eventWindow_valid [OF v]
    by (simp add: getEventTimes_def n) (simp add: iso_local_def)
qed

theorem C3_mars_witness:
  "getEventTimes ref_platform (DString ''15 mars 2025'') ''12H Jour'' =
     Inr (Some (iso_local 2025 3 15 7 30), Some (iso_local 2025 3 15 19 30))
   \<and> getEventTimes ref_platform (DString ''15 mars 2025'') ''12H Nuit'' =
     Inr (Some (iso_local 2025 3 15 19 30), Some (iso_local 2025 3 16 7 30))
   \<and> getEventTimes ref_platform (DString ''15 mars 2025'') ''24H'' =
     Inr (Some (iso_local 2025 3 15 7 30), Some (iso_local 2025 3 16 7 30))"
proof -
  have a: "Date_parse ref_platform ''15 mars 2025'' = Some (iso_local 2025 3 15 0 0)"
    by code_simp
  have b: "Date_parse ref_platform ''mars 1'' = Some (iso_local 2001 3 1 0 0)"
    by code_simp
  show ?thesis
    by (rule C3_mars [OF a _ _ _ b]) (simp_all add: iso_local_def)
qed

text \<open>
  C4, as the code has it. The resolver checks the date before the shift type, and has
  three error sites of its own. For a string that the platform's parser accepts, it
  raises InvalidDateError exactly when the day, the month or the year taken from the
  French breakdown does not convert to a number. For a value that is neither a string
  nor a \<^verbatim>\<open>Date\<close> it raises a third error, "date format not recognised". It raises
  UnrecognizedServiceTypeError exactly when the date stage has succeeded and the shift
  type is none of 12H Jour, 12H Nuit, 24H (so for a \<^verbatim>\<open>Date\<close> and "BOGUS"); when the date stage
  has succeeded and the shift type is known it returns a window. For a \<^verbatim>\<open>Date\<close> or a
  string the parser accepts there is no other failure.
\<close>

theorem C4_errors:
  "(Date_parse P s = Some t \<longrightarrow>
      (getEventTimes P (DString s) svc = Inl InvalidDateError \<longleftrightarrow>
        (\<exists>parts. formatToParts (Some t) = Inr parts \<and>
           (Number (part_value ''day'' parts) = None
            \<or> map_option month
                 (Date_parse P (concat_undefined (part_value ''month'' parts) '' 1'')) = None
            \<or> Number (part_value ''year'' parts) = None))))
   \<and> getEventTimes P DOther svc = Inl UnrecognizedDateFormatError
   \<and> (getEventTimes P dv svc = Inl UnrecognizedServiceTypeError \<longleftrightarrow>
        (\<exists>dt. resolveDate P dv = Inr dt) \<and> svc \<notin> known_types)
   \<and> ((\<exists>dt. resolveDate P dv = Inr dt) \<and> svc \<in> known_types \<longrightarrow>
        (\<exists>w. getEventTimes P dv svc = Inr w))
   \<and> getEventTimes P (DDate d) ''BOGUS'' = Inl UnrecognizedServiceTypeError
   \<and> ((dv = DDate d \<or> dv = DString s \<and> Date_parse P s \<noteq> None)
        \<and> getEventTimes P dv svc = Inl e \<longrightarrow>
        e = InvalidDateError \<or> e = UnrecognizedServiceTypeError)"
proof (intro conjI)
  show "Date_parse P s = Some t \<longrightarrow>
      (getEventTimes P (DString s) svc = Inl InvalidDateError \<longleftrightarrow>
        (\<exists>parts. formatToParts (Some t) = Inr parts \<and>
           (Number (part_value ''day'' parts) = None
            \<or> map_option month
                 (Date_parse P (concat_undefined (part_value ''month'' parts) '' 1'')) = None
            \<or> Number (part_value ''year'' parts) = None)))"
  proof
    assume t: "Date_parse P s = Some t"
    obtain parts where parts: "formatToParts (Some t) = Inr parts"
      by (simp add: formatToParts_def)
    have "getEventTimes P (DString s) svc = Inl InvalidDateError \<longleftrightarrow>
          resolveDate P (DString s) = Inl InvalidDateError"
      by (simp add: getEventTimes_error)
    also have "\<dots> \<longleftrightarrow> (Number (part_value ''day'' parts) = None
            \<or> map_option month
                 (Date_parse P (concat_undefined (part_value ''month'' parts) '' 1'')) = None
            \<or> Number (part_value ''year'' parts) = None)"
      unfolding resolveDate_def using t parts
      by (auto simp: Let_def split: option.splits)
    finally show "getEventTimes P (DString s) svc = Inl InvalidDateError \<longleftrightarrow>
        (\<exists>parts. formatToParts (Some t) = Inr parts \<and>
           (Number (part_value ''day'' parts) = None
            \<or> map_option month
                 (Date_parse P (concat_undefined (part_value ''month'' parts) '' 1'')) = None
            \<or> Number (part_value ''year'' parts) = None))"
      using parts by simp
  qed
next
  show "getEventTimes P DOther svc = Inl UnrecognizedDateFormatError"
    by (simp add: getEventTimes_def resolveDate_def)
next
  show "getEventTimes P dv svc = Inl UnrecognizedServiceTypeError \<longleftrightarrow>
        (\<exists>dt. resolveDate P dv = Inr dt) \<and> svc \<notin> known_types"
    using resolveDate_error_kinds [of P dv UnrecognizedServiceTypeError]
    by (auto simp: getEventTimes_error)
next
  show "(\<exists>dt. resolveDate P dv = Inr dt) \<and> svc \<in> known_types \<longrightarrow>
        (\<exists>w. getEventTimes P dv svc = Inr w)"
    using eventWindow_known by (auto simp: getEventTimes_def)
next
  show "getEventTimes P (DDate d) ''BOGUS'' = Inl UnrecognizedServiceTypeError"
    by (simp add: getEventTimes_def resolveDate_def eventWindow_def)
next
  show "(dv = DDate d \<or> dv = DString s \<and> Date_parse P s \<noteq> None)
        \<and> getEventTimes P dv svc = Inl e \<longrightarrow>
        e = InvalidDateError \<or> e = UnrecognizedServiceTypeError"
    using resolveDate_error_kinds [of P dv e]
    by (auto simp: getEventTimes_error)
qed

theorem C4_errors_witness:
  "getEventTimes ref_platform (DString ''15 mars 2025'') ''BOGUS'' =
     Inl UnrecognizedServiceTypeError
   \<and> getEventTimes ref_platform (DString ''15 feb 2025'') ''24H'' = Inl InvalidDateError
   \<and> (\<exists>w. getEventTimes ref_platform (DString ''15 mars 2025'') ''24H'' = Inr w)"
proof -
  have r: "resolveDate ref_platform (DString ''15 mars 2025'') =
           Inr (Some (iso_local 2025 3 15 0 0))"
    by code_simp
  have k: "''BOGUS'' \<notin> known_types" "''24H'' \<in> known_types"
    by (simp_all add: known_types_def)
  have p: "Date_parse ref_platform ''15 feb 2025'' = Some (iso_local 2025 2 15 0 0)"
    by code_simp
  have f: "formatToParts (Some (iso_local 2025 2 15 0 0)) =
      Inr [(''day'', ''15''), (''literal'', '' ''), (''month'', ''f'' @ [CHR 0xE9] @ ''vrier''),
           (''literal'', '' ''), (''year'', ''2025'')]"
    by code_simp
  have m: "map_option month (Date_parse ref_platform (concat_undefined
      (part_value ''month'' [(''day'', ''15''), (''literal'', '' ''),
         (''month'', ''f'' @ [CHR 0xE9] @ ''vrier''), (''literal'', '' ''), (''year'', ''2025'')])
      '' 1'')) = None"
    by code_simp
  have 1: "getEventTimes ref_platform (DString ''15 mars 2025'') ''BOGUS'' =
           Inl UnrecognizedServiceTypeError"
    using C4_errors [where P = ref_platform and dv = "DString ''15 mars 2025''"
        and svc = "''BOGUS''"] r k by simp
  have 2: "getEventTimes ref_platform (DString ''15 feb 2025'') ''24H'' = Inl InvalidDateError"
    using C4_errors [where P = ref_platform and s = "''15 feb 2025''"
        and t = "iso_local 2025 2 15 0 0" and svc = "''24H''"] p f m by simp
  have 3: "\<exists>w. getEventTimes ref_platform (DString ''15 mars 2025'') ''24H'' = Inr w"
    using C4_errors [where P = ref_platform and dv = "DString ''15 mars 2025''"
        and svc = "''24H''"] r k by simp
  show ?thesis using 1 2 3 by simp
qed

text \<open>
  The claim as stated fails: on the reference platform, whose parser rejects
  "not a date", the resolver raises neither of the two errors for that string, with
  "BOGUS" as with 24H: the formatter throws first. And a value that is neither a string
  nor a \<^verbatim>\<open>Date\<close> raises a third error of the resolver's own.
\<close>

theorem C4_counterexample:
  "getEventTimes ref_platform (DString ''not a date'') ''BOGUS'' = Inl RangeError
   \<and> getEventTimes ref_platform (DString ''not a date'') ''24H'' = Inl RangeError
   \<and> getEventTimes ref_platform DOther ''24H'' = Inl UnrecognizedDateFormatError"
  by code_simp

text \<open>
  C5, as the code has it. \<^verbatim>\<open>row.values\<close> is indexed by column number and \<^verbatim>\<open>slice(1)\<close> drops
  slot 0, so \<^verbatim>\<open>rowValues[1]\<close> is column 2: every event comes from a row of the sheet, its
  date is the text of column 2 of that row, its team the text of column 3, and the slot
  \<open>k\<close> of its extra cells is built from column \<open>k + 4\<close> (value and fill), empty where that
  column holds no value. Column 1 is not read.
\<close>

theorem C5_columns:
  assumes "ev \<in> set (parseSheet ws)"
  shows "\<exists>r \<in> set (ws_rows ws).
           Some (date ev) = map_option coerce (cvalue (getCell r 2))
         \<and> Some (equipe ev) = map_option coerce (cvalue (getCell r 3))
         \<and> (\<forall>k. at_index (extraData ev) k =
                 (case cvalue (getCell r (k + 4)) of
                    None \<Rightarrow> None
                  | Some v \<Rightarrow>
                      Some \<lparr>color = fgColor_argb (getCell r (k + 4)),
                            color_theme = fgColor_theme (getCell r (k + 4)),
                            val = coerce v,
                            serviceType = determineServiceType
                              \<lparr>color = fgColor_argb (getCell r (k + 4)),
                               color_theme = fgColor_theme (getCell r (k + 4))\<rparr>\<rparr>))"
proof -
  obtain r where r: "r \<in> set (ws_rows ws)" "parseRow r = Some ev"
    using assms by (auto simp: in_parseSheet)
  from r(2) obtain dv tv where
    c: "cvalue (getCell r 2) = Some dv" "cvalue (getCell r 3) = Some tv"
    and ev: "ev = \<lparr>date = coerce dv, equipe = coerce tv,
                 extraData = map (\<lambda>(index, v). map_option (extraCellOf r index) v)
                               (enumerate 0 (drop 3 (rowValues r)))\<rparr>"
    by (auto simp: parseRow_Some_iff)
  have "at_index (extraData ev) k =
                 (case cvalue (getCell r (k + 4)) of
                    None \<Rightarrow> None
                  | Some v \<Rightarrow>
                      Some \<lparr>color = fgColor_argb (getCell r (k + 4)),
                            color_theme = fgColor_theme (getCell r (k + 4)),
                            val = coerce v,
                            serviceType = determineServiceType
                              \<lparr>color = fgColor_argb (getCell r (k + 4)),
                               color_theme = fgColor_theme (getCell r (k + 4))\<rparr>\<rparr>)" for k
    by (simp add: ev at_index_extras extraCellOf_def Let_def split: option.splits)
  moreover have "Some (date ev) = map_option coerce (cvalue (getCell r 2))"
    and "Some (equipe ev) = map_option coerce (cvalue (getCell r 3))"
    using c ev by simp_all
  ultimately show ?thesis using r(1) by blast
qed

theorem C5_columns_witness:
  "\<exists>r \<in> set (ws_rows sample_sheet).
           Some (date sample_event) = map_option coerce (cvalue (getCell r 2))
         \<and> Some (equipe sample_event) = map_option coerce (cvalue (getCell r 3))
         \<and> (\<forall>k. at_index (extraData sample_event) k =
                 (case cvalue (getCell r (k + 4)) of
                    None \<Rightarrow> None
                  | Some v \<Rightarrow>
                      Some \<lparr>color = fgColor_argb (getCell r (k + 4)),
                            color_theme = fgColor_theme (getCell r (k + 4)),
                            val = coerce v,
                            serviceType = determineServiceType
                              \<lparr>color = fgColor_argb (getCell r (k + 4)),
                               color_theme = fgColor_theme (getCell r (k + 4))\<rparr>\<rparr>))"
proof -
  have m: "sample_event \<in> set (parseSheet sample_sheet)"
    by code_simp
  show ?thesis by (rule C5_columns [OF m])
qed

text \<open>
  The claim as stated fails: in a row with "lundi" in column 1, a date in column 2
  and a team in column 3, the event takes the date from column 2 and the team from
  column 3.
\<close>

theorem C5_counterexample:
  "map date (parseSheet (sheet_of [[text_cell ''lundi'', text_cell ''15 mars 2025'',
                                     text_cell ''A'', text_cell ''Dupont'']]))
     = [''15 mars 2025'']
   \<and> map equipe (parseSheet (sheet_of [[text_cell ''lundi'', text_cell ''15 mars 2025'',
                                         text_cell ''A'', text_cell ''Dupont'']]))
     = [''A'']
   \<and> cell_text (cvalue (getCell [text_cell ''lundi'', text_cell ''15 mars 2025'',
                                  text_cell ''A'', text_cell ''Dupont''] 1)) = ''lundi''"
  by code_simp

text \<open>
  C6, as the code has it. The text of a cell is its display string when the value is
  truthy, and empty when the value is missing or falsy (the number 0, false, the empty
  string). A row yields an event exactly when the texts of its date and team cells are
  both non-empty; the events are those of the qualifying rows, one each, in row order;
  the values of the extra cells are the texts of the valued cells from column 4 on, in
  order; a row without any value yields nothing. No row is an error.
\<close>

theorem C6_qualification:
  "(parseRow r \<noteq> None \<longleftrightarrow>
      cell_text (cvalue (getCell r 2)) \<noteq> [] \<and> cell_text (cvalue (getCell r 3)) \<noteq> [])
   \<and> parseSheet ws = List.map_filter parseRow (eachRow ws)
   \<and> (parseRow r = Some ev \<longrightarrow>
        map val (present_cells (extraData ev)) =
        map coerce (present_cells (drop 3 (map cvalue r))))
   \<and> (\<not> hasValues r \<longrightarrow> parseRow r = None)"
proof (intro conjI)
  show q: "parseRow r \<noteq> None \<longleftrightarrow>
      cell_text (cvalue (getCell r 2)) \<noteq> [] \<and> cell_text (cvalue (getCell r 3)) \<noteq> []"
    by (auto simp: parseRow_Some_iff cell_text_def split: option.splits)
  show "parseSheet ws = List.map_filter parseRow (eachRow ws)"
    by (rule parseSheet_map_filter)
  show "parseRow r = Some ev \<longrightarrow>
        map val (present_cells (extraData ev)) =
        map coerce (present_cells (drop 3 (map cvalue r)))"
    using extras_order by blast
  show "\<not> hasValues r \<longrightarrow> parseRow r = None"
    using q hasValues_getCell [of r 2] by (auto simp: cell_text_def split: option.splits)
qed

theorem C6_qualification_witness:
  "parseRow sample_row \<noteq> None
   \<and> map val (present_cells (extraData sample_event)) = [''Dupont'', ''Martin'', ''Durand'']
   \<and> parseRow [empty_cell, empty_cell] = None"
proof -
  have a: "cell_text (cvalue (getCell sample_row 2)) \<noteq> []
           \<and> cell_text (cvalue (getCell sample_row 3)) \<noteq> []"
    by code_simp
  have b: "parseRow sample_row = Some sample_event"
    by code_simp
  have c: "map coerce (present_cells (drop 3 (map cvalue sample_row)))
           = [''Dupont'', ''Martin'', ''Durand'']"
    by code_simp
  have d: "\<not> hasValues [empty_cell, empty_cell]"
    by code_simp
  have 1: "parseRow sample_row \<noteq> None"
    using C6_qualification [of sample_row sample_sheet sample_event] a by blast
  have 2: "map val (present_cells (extraData sample_event)) = [''Dupont'', ''Martin'', ''Durand'']"
    using C6_qualification [of sample_row sample_sheet sample_event] b c by simp
  have 3: "parseRow [empty_cell, empty_cell] = None"
    using C6_qualification [of "[empty_cell, empty_cell]" sample_sheet sample_event] d by blast
  show ?thesis using 1 2 3 by blast
qed

text \<open>
  The claim as stated fails: a team cell holding the number 0 is a present value with
  the display string "0", and the row is skipped.
\<close>

theorem C6_counterexample:
  "toString (VString ''15 mars 2025'') = ''15 mars 2025''
   \<and> toString (VNumber 0) = ''0''
   \<and> parseSheet (sheet_of [[text_cell ''lundi'', text_cell ''15 mars 2025'',
                             value_cell (VNumber 0), text_cell ''Dupont'']]) = []"
  by code_simp

text \<open>
  C7, as the code has it. With no selected name, or the empty one, the filter returns
  no event. Otherwise it returns, in order, exactly the events with an extra cell whose
  value is non-empty and equals the selected name after upper-casing and trimming.
\<close>

theorem C7_filter:
  "filterEvents P allEvents None = []
   \<and> filterEvents P allEvents (Some []) = []
   \<and> (s \<noteq> [] \<longrightarrow>
        filterEvents P allEvents (Some s) =
        filter (\<lambda>ev. \<exists>c \<in> set (present_cells (extraData ev)).
                        val c \<noteq> [] \<and> normalized P (val c) = normalized P s) allEvents)"
  by (simp add: filterEvents_def list_ex_slots normalized_def)

theorem C7_filter_witness:
  "filterEvents ref_platform (parseSheet sample_sheet) (Some ''dupont '') =
     [sample_event,
      \<lparr>date = ''16 mars 2025'', equipe = ''B'',
       extraData =
         [Some \<lparr>color = None, color_theme = None, val = ''Durand'', serviceType = ''24H''\<rparr>,
          None,
          Some \<lparr>color = None, color_theme = Some 9, val = ''Dupont'',
                serviceType = ''12H Nuit''\<rparr>]\<rparr>]"
proof -
  have e: "filter (\<lambda>ev. \<exists>c \<in> set (present_cells (extraData ev)).
                        val c \<noteq> [] \<and>
                        normalized ref_platform (val c) = normalized ref_platform ''dupont '')
             (parseSheet sample_sheet) =
     [sample_event,
      \<lparr>date = ''16 mars 2025'', equipe = ''B'',
       extraData =
         [Some \<lparr>color = None, color_theme = None, val = ''Durand'', serviceType = ''24H''\<rparr>,
          None,
          Some \<lparr>color = None, color_theme = Some 9, val = ''Dupont'',
                serviceType = ''12H Nuit''\<rparr>]\<rparr>]"
    by code_simp
  show ?thesis
    using C7_filter [of ref_platform "parseSheet sample_sheet" "''dupont ''"] e by simp
qed

text \<open>
  The claim as stated fails: an extra cell holding the number 0 has the empty value,
  which equals the selected name " " after trimming, and the event is not returned.
\<close>

theorem C7_counterexample:
  "map (\<lambda>ev. map val (present_cells (extraData ev)))
     (parseSheet (sheet_of [[text_cell ''lundi'', text_cell ''15 mars 2025'', text_cell ''A'',
                             value_cell (VNumber 0)]])) = [[[]]]
   \<and> normalized ref_platform [] = normalized ref_platform '' ''
   \<and> filterEvents ref_platform
        (parseSheet (sheet_of [[text_cell ''lundi'', text_cell ''15 mars 2025'', text_cell ''A'',
                                value_cell (VNumber 0)]])) (Some '' '') = []"
  by code_simp

text \<open>
  C8, as the code has it, for a worksheet that has column objects. The name index has
  no duplicate and is sorted by \<^verbatim>\<open>localeCompare\<close> whenever that comparison is consistent.
  A column counts when it is numbered 4 or more among the columns of the sheet and its
  header cell (in row 1, or in row 2 when row 1 has no value) holds a truthy value other
  than the string DESIDERATA. Every name of the index is the display string of the
  value of a cell of such a column, where the cell's fill classifies as 24H, the string
  has no digit and is not blank; and every such string whose cell value is truthy is
  in the index. What the index does with a cell holding a defined but falsy value, and
  what happens on a worksheet without column objects, is left open here.
\<close>

theorem C8_names:
  assumes "ws_columns ws = Some n"
  shows "\<exists>names. extractUniqueNames P ws = Inr names
     \<and> {s. \<exists>col r v h.
            4 \<le> col \<and> col \<le> n
          \<and> cvalue (getCell (headerRow ws) col) = Some h \<and> truthy h
          \<and> h \<noteq> VString ''DESIDERATA''
          \<and> r \<in> set (ws_rows ws) \<and> cvalue (getCell r col) = Some v \<and> truthy v
          \<and> determineServiceType \<lparr>color = fgColor_argb (getCell r col),
                                   color_theme = fgColor_theme (getCell r col)\<rparr> = ''24H''
          \<and> s = toString v \<and> \<not> test_digit s \<and> trim s \<noteq> []} \<subseteq> set names
     \<and> set names \<subseteq>
         {s. \<exists>col r v h.
            4 \<le> col \<and> col \<le> n
          \<and> cvalue (getCell (headerRow ws) col) = Some h \<and> truthy h
          \<and> h \<noteq> VString ''DESIDERATA''
          \<and> r \<in> set (ws_rows ws) \<and> cvalue (getCell r col) = Some v
          \<and> determineServiceType \<lparr>color = fgColor_argb (getCell r col),
                                   color_theme = fgColor_theme (getCell r col)\<rparr> = ''24H''
          \<and> s = toString v \<and> \<not> test_digit s \<and> trim s \<noteq> []}
     \<and> distinct names
     \<and> (total_preorder (localeCompare P) \<longrightarrow>
          sorted_wrt (\<lambda>a b. localeCompare P a b \<le> 0) names)"
proof -
  define raw where
    "raw = fold (scanColumn ws (headerRow ws)) (enumerate 0 (drop 3 [1..<n + 1])) []"
  define names where "names = sort_by (localeCompare P) raw"
  have e: "extractUniqueNames P ws = Inr names"
    using assms by (simp add: extractUniqueNames_def columns_def names_def raw_def)
  have s: "set names = set raw"
    by (simp add: names_def set_sort_by)
  have lower: "{s. \<exists>col r v h.
            4 \<le> col \<and> col \<le> n
          \<and> cvalue (getCell (headerRow ws) col) = Some h \<and> truthy h
          \<and> h \<noteq> VString ''DESIDERATA''
          \<and> r \<in> set (ws_rows ws) \<and> cvalue (getCell r col) = Some v \<and> truthy v
          \<and> determineServiceType \<lparr>color = fgColor_argb (getCell r col),
                                   color_theme = fgColor_theme (getCell r col)\<rparr> = ''24H''
          \<and> s = toString v \<and> \<not> test_digit s \<and> trim s \<noteq> []} \<subseteq> set names"
  proof
    fix s
    assume "s \<in> {s. \<exists>col r v h.
            4 \<le> col \<and> col \<le> n
          \<and> cvalue (getCell (headerRow ws) col) = Some h \<and> truthy h
          \<and> h \<noteq> VString ''DESIDERATA''
          \<and> r \<in> set (ws_rows ws) \<and> cvalue (getCell r col) = Some v \<and> truthy v
          \<and> determineServiceType \<lparr>color = fgColor_argb (getCell r col),
                                   color_theme = fgColor_theme (getCell r col)\<rparr> = ''24H''
          \<and> s = toString v \<and> \<not> test_digit s \<and> trim s \<noteq> []}"
    then obtain col r v h where
      c: "4 \<le> col" "col \<le> n"
      and h: "cvalue (getCell (headerRow ws) col) = Some h" "truthy h"
             "h \<noteq> VString ''DESIDERATA''"
      and r: "r \<in> set (ws_rows ws)"
      and v: "cvalue (getCell r col) = Some v" "truthy v"
             "determineServiceType \<lparr>color = fgColor_argb (getCell r col),
                                    color_theme = fgColor_theme (getCell r col)\<rparr> = ''24H''"
             "s = toString v" "\<not> test_digit s" "trim s \<noteq> []"
      by blast
    have q: "col - 4 + 4 = col" using c(1) by simp
    have "header_kept (cvalue (getCell (headerRow ws) (col - 4 + 4)))"
      unfolding q using h by (simp add: header_kept_def)
    moreover have "s \<in> cell_names (getCell r (col - 4 + 4))"
      unfolding q using v by (simp add: cell_names_def)
    moreover have "col - 4 + 4 \<le> n" unfolding q by (rule c(2))
    ultimately show "s \<in> set names"
      unfolding s raw_def in_names_raw using r by blast
  qed
  have upper: "set names \<subseteq>
         {s. \<exists>col r v h.
            4 \<le> col \<and> col \<le> n
          \<and> cvalue (getCell (headerRow ws) col) = Some h \<and> truthy h
          \<and> h \<noteq> VString ''DESIDERATA''
          \<and> r \<in> set (ws_rows ws) \<and> cvalue (getCell r col) = Some v
          \<and> determineServiceType \<lparr>color = fgColor_argb (getCell r col),
                                   color_theme = fgColor_theme (getCell r col)\<rparr> = ''24H''
          \<and> s = toString v \<and> \<not> test_digit s \<and> trim s \<noteq> []}"
  proof
    fix s assume "s \<in> set names"
    then obtain i r where i: "i + 4 \<le> n"
      and k: "header_kept (cvalue (getCell (headerRow ws) (i + 4)))"
      and r: "r \<in> set (ws_rows ws)" and c: "s \<in> cell_names (getCell r (i + 4))"
      unfolding s raw_def in_names_raw by blast
    from k obtain h where "cvalue (getCell (headerRow ws) (i + 4)) = Some h" "truthy h"
        "h \<noteq> VString ''DESIDERATA''"
      by (auto simp: header_kept_def split: option.splits)
    moreover from c obtain v where "cvalue (getCell r (i + 4)) = Some v"
        "determineServiceType \<lparr>color = fgColor_argb (getCell r (i + 4)),
                               color_theme = fgColor_theme (getCell r (i + 4))\<rparr> = ''24H''"
        "s = toString v" "\<not> test_digit s" "trim s \<noteq> []"
      by (auto simp: cell_names_def)
    ultimately show "s \<in> {s. \<exists>col r v h.
            4 \<le> col \<and> col \<le> n
          \<and> cvalue (getCell (headerRow ws) col) = Some h \<and> truthy h
          \<and> h \<noteq> VString ''DESIDERATA''
          \<and> r \<in> set (ws_rows ws) \<and> cvalue (getCell r col) = Some v
          \<and> determineServiceType \<lparr>color = fgColor_argb (getCell r col),
                                   color_theme = fgColor_theme (getCell r col)\<rparr> = ''24H''
          \<and> s = toString v \<and> \<not> test_digit s \<and> trim s \<noteq> []}"
      using i r
      by (intro CollectI exI [of _ "i + 4"] exI [of _ r] exI [of _ v] exI [of _ h]) simp
  qed
  have d: "distinct names"
    by (simp add: names_def raw_def distinct_sort_by distinct_fold_scanColumn)
  have o: "total_preorder (localeCompare P) \<longrightarrow>
          sorted_wrt (\<lambda>a b. localeCompare P a b \<le> 0) names"
    by (simp add: names_def sorted_sort_by)
  show ?thesis
    using e lower upper d o by (intro exI [of _ names] conjI)
qed

theorem C8_names_witness:
  "extractUniqueNames ref_platform sample_sheet = Inr [''Albert'', ''Durand'', ''NOM'']
   \<and> sorted_wrt (\<lambda>a b. localeCompare ref_platform a b \<le> 0) [''Albert'', ''Durand'', ''NOM'']
   \<and> distinct [''Albert'', ''Durand'', ''NOM'']"
proof -
  have c: "ws_columns sample_sheet = Some 6"
    by (simp add: sample_sheet_def)
  have v: "extractUniqueNames ref_platform sample_sheet = Inr [''Albert'', ''Durand'', ''NOM'']"
    by code_simp
  have t: "total_preorder (localeCompare ref_platform)"
    by (simp add: ref_platform_def total_preorder_code_unit_compare)
  obtain names where n: "extractUniqueNames ref_platform sample_sheet = Inr names"
    and d: "distinct names"
    and o: "total_preorder (localeCompare ref_platform) \<longrightarrow>
            sorted_wrt (\<lambda>a b. localeCompare ref_platform a b \<le> 0) names"
    using C8_names [OF c, of ref_platform] by blast
  have "names = [''Albert'', ''Durand'', ''NOM'']"
    using n v by simp
  then show ?thesis using v d o t by blast
qed

text \<open>
  The claim as stated fails. By the test \<^verbatim>\<open>header && ...\<close>, under a header cell holding the
  number 0, which is present and is not DESIDERATA, the name "Dupont" is not indexed.
  Besides, a cell holding the boolean false, whose string "false" has no digit, is not
  indexed, although the comment on that test says it checks that the value is defined;
  and on a worksheet without column objects \<^verbatim>\<open>worksheet.columns.slice\<close> throws.
\<close>

theorem C8_counterexample:
  "extractUniqueNames ref_platform
     (sheet_of [[text_cell ''Jour'', text_cell ''Date'', text_cell ''Equipe'',
                 value_cell (VNumber 0)],
                [text_cell ''lundi'', text_cell ''15 mars 2025'', text_cell ''A'',
                 text_cell ''Dupont'']]) = Inr []
   \<and> extractUniqueNames ref_platform
     (sheet_of [[text_cell ''Jour'', text_cell ''Date'', text_cell ''Equipe'',
                 text_cell ''NOM''],
                [text_cell ''lundi'', text_cell ''15 mars 2025'', text_cell ''A'',
                 value_cell (VBoolean False)]]) = Inr [''NOM'']
   \<and> toString (VBoolean False) = ''false''
   \<and> extractUniqueNames ref_platform
     \<lparr>ws_rows = [[text_cell ''Jour'', text_cell ''Date'', text_cell ''Equipe'',
                   text_cell ''NOM''],
                  [text_cell ''lundi'', text_cell ''15 mars 2025'', text_cell ''A'',
                   text_cell ''Dupont'']],
      ws_columns = None\<rparr> = Inl TypeError"
  by code_simp

text \<open>
  C9. For a selected name, the function returns the shift type of the first extra
  cell, in cell order, whose value equals the name after upper-casing and trimming,
  and nothing when no cell matches; with no selected name it returns nothing.
\<close>

theorem C9_first_match:
  "getServiceTypeForSelectedName P (Some s) ev =
     map_option serviceType
       (List.find (\<lambda>c. normalized P (val c) = normalized P s) (present_cells (extraData ev)))
   \<and> getServiceTypeForSelectedName P None ev = None"
  by (simp add: getServiceType_Some getServiceType_None normalized_def)

theorem C9_first_match_witness:
  "getServiceTypeForSelectedName ref_platform (Some '' durand'') sample_event = Some ''24H''
   \<and> getServiceTypeForSelectedName ref_platform (Some ''Leroy'') sample_event = None
   \<and> getServiceTypeForSelectedName ref_platform None sample_event = None"
proof -
  have a: "map_option serviceType
       (List.find (\<lambda>c. normalized ref_platform (val c) = normalized ref_platform '' durand'')
          (present_cells (extraData sample_event))) = Some ''24H''"
    by code_simp
  have b: "map_option serviceType
       (List.find (\<lambda>c. normalized ref_platform (val c) = normalized ref_platform ''Leroy'')
          (present_cells (extraData sample_event))) = None"
    by code_simp
  show ?thesis
    using C9_first_match [of ref_platform "'' durand''" sample_event]
      C9_first_match [of ref_platform "''Leroy''" sample_event] a b
    by simp
qed

text \<open>
  C10. For a non-empty selected name, every event that the filter returns resolves to
  some shift type, never to nothing. When the events are those extracted from a
  worksheet, every event handed to the calendar step carries the shift type of its
  matching cell, which is one of the three known ones: the label Inconnu is not
  substituted, and the resolver does not raise UnrecognizedServiceTypeError for it.
\<close>

theorem C10_never_inconnu:
  assumes "s \<noteq> []"
  shows "(ev \<in> set (filterEvents P allEvents (Some s)) \<longrightarrow>
            (\<exists>t. getServiceTypeForSelectedName P (Some s) ev = Some t))
       \<and> (\<forall>p \<in> set (generateICal P (filterEvents P (parseSheet ws) (Some s)) (Some s)).
             getServiceTypeForSelectedName P (Some s) (fst p) = Some (snd p)
           \<and> snd p \<in> known_types
           \<and> (\<forall>dv. getEventTimes P dv (snd p) \<noteq> Inl UnrecognizedServiceTypeError))"
proof (intro conjI impI ballI)
  assume "ev \<in> set (filterEvents P allEvents (Some s))"
  then show "\<exists>t. getServiceTypeForSelectedName P (Some s) ev = Some t"
    using filtered_resolves by blast
next
  fix p
  assume "p \<in> set (generateICal P (filterEvents P (parseSheet ws) (Some s)) (Some s))"
  then obtain e where e: "e \<in> set (filterEvents P (parseSheet ws) (Some s))"
    and p: "p = (e, orInconnu (getServiceTypeForSelectedName P (Some s) e))"
    by (auto simp: generateICal_def)
  obtain c where c: "c \<in> set (present_cells (extraData e))"
      "getServiceTypeForSelectedName P (Some s) e = Some (serviceType c)"
    using filtered_resolves [OF e] by blast
  have "e \<in> set (parseSheet ws)"
    using filtered_has_match [OF e] by blast
  then have k: "serviceType c \<in> known_types"
    using c(1) by (rule parseSheet_known)
  have q: "snd p = serviceType c"
    using p c(2) k by (simp add: orInconnu_known)
  show "getServiceTypeForSelectedName P (Some s) (fst p) = Some (snd p)"
    using p c(2) q by simp
  show "snd p \<in> known_types"
    using q k by simp
  show "\<forall>dv. getEventTimes P dv (snd p) \<noteq> Inl UnrecognizedServiceTypeError"
    using q k getEventTimes_known by simp
qed

theorem C10_never_inconnu_witness:
  "map snd (generateICal ref_platform
              (filterEvents ref_platform (parseSheet sample_sheet) (Some ''dupont''))
              (Some ''dupont'')) = [''12H Jour'', ''12H Nuit'']
   \<and> list_all (\<lambda>p. snd p \<in> known_types)
        (generateICal ref_platform
           (filterEvents ref_platform (parseSheet sample_sheet) (Some ''dupont''))
           (Some ''dupont''))
   \<and> (\<exists>t. getServiceTypeForSelectedName ref_platform (Some ''dupont'') sample_event = Some t)"
proof -
  have n: "''dupont'' \<noteq> []"
    by simp
  have m: "sample_event \<in> set (filterEvents ref_platform (parseSheet sample_sheet)
                                  (Some ''dupont''))"
    by code_simp
  have v: "map snd (generateICal ref_platform
              (filterEvents ref_platform (parseSheet sample_sheet) (Some ''dupont''))
              (Some ''dupont'')) = [''12H Jour'', ''12H Nuit'']"
    by code_simp
  show ?thesis
    using C10_never_inconnu [OF n, of sample_event ref_platform "parseSheet sample_sheet"
        sample_sheet] m v
    by (simp add: list_all_iff)
qed

end
